theory Spec2Isabelle
  imports Main "HOL-Library.Sublist"
begin

section \<open>Text and character classes\<close>

text \<open>
  Every script reads one file into a Python \<^verbatim>\<open>str\<close>, rewrites it with \<^verbatim>\<open>re.sub\<close> and
  writes it back.  A text is modelled as a \<^typ>\<open>string\<close>; a \<^typ>\<open>char\<close> stands for the code
  point of the same number, so the model covers texts whose code points are below 256.
  The word class and the whitespace class are the ones of Python 3 for \<^verbatim>\<open>str\<close> patterns
  on that range.
\<close>

definition is_word :: "char \<Rightarrow> bool" where
  "is_word c = (let n = (of_char c :: nat) in
     (48 \<le> n \<and> n \<le> 57) \<or> (65 \<le> n \<and> n \<le> 90) \<or> n = 95 \<or> (97 \<le> n \<and> n \<le> 122) \<or>
     n = 170 \<or> n = 178 \<or> n = 179 \<or> n = 181 \<or> n = 185 \<or> n = 186 \<or>
     n = 188 \<or> n = 189 \<or> n = 190 \<or>
     (192 \<le> n \<and> n \<le> 214) \<or> (216 \<le> n \<and> n \<le> 246) \<or> 248 \<le> n)"

definition is_space :: "char \<Rightarrow> bool" where
  "is_space c = (let n = (of_char c :: nat) in
     (9 \<le> n \<and> n \<le> 13) \<or> (28 \<le> n \<and> n \<le> 32) \<or> n = 133 \<or> n = 160)"

datatype cset = Only string | Except string | Word | Space

fun accepts :: "cset \<Rightarrow> char \<Rightarrow> bool" where
  "accepts (Only cs) x = (x \<in> set cs)"
| "accepts (Except cs) x = (x \<notin> set cs)"
| "accepts Word x = is_word x"
| "accepts Space x = is_space x"

section \<open>The regular expressions of the scripts\<close>

text \<open>
  The scripts' patterns use literal characters, character classes, the greedy quantifiers
  \<^verbatim>\<open>+\<close>, \<^verbatim>\<open>*\<close> and \<^verbatim>\<open>?\<close> on a single class, the word boundary, and capturing groups that are neither
  nested nor repeated.  A pattern is the list of its items; group \<open>k\<close> is opened by
  \<open>Mark (2 * k - 2)\<close> and closed by \<open>Mark (2 * k - 1)\<close>, as in the compiled form of
  Python's \<^verbatim>\<open>re\<close>.
\<close>

datatype node = Lit char | One cset | Plus cset | Star cset | Opt cset | WordB | Mark nat

type_synonym marks = "(nat \<times> nat) list"

text \<open>A successful match: the consumed text reversed, the marks, and the text left over.\<close>

type_synonym found = "string \<times> marks \<times> string"

definition lits :: "string \<Rightarrow> node list" where
  "lits w = map Lit w"

definition last_char :: "char option \<Rightarrow> string \<Rightarrow> char option" where
  "last_char prev acc = (case acc of [] \<Rightarrow> prev | c # _ \<Rightarrow> Some c)"

definition at_boundary :: "char option \<Rightarrow> string \<Rightarrow> bool" where
  "at_boundary prior s =
     ((case prior of None \<Rightarrow> False | Some c \<Rightarrow> is_word c) \<noteq>
      (case s of [] \<Rightarrow> False | c # _ \<Rightarrow> is_word c))"

text \<open>
  A greedy loop over one class: take one more character if that leads to a match, and only
  otherwise go on with the rest of the pattern from here (backtracking).
\<close>

primrec rep :: "cset \<Rightarrow> (string \<Rightarrow> string \<Rightarrow> 'a option) \<Rightarrow> string \<Rightarrow> string \<Rightarrow> 'a option" where
  "rep k cont acc [] = cont acc []"
| "rep k cont acc (x # xs) =
     (if accepts k x
      then (case rep k cont (x # acc) xs of Some r \<Rightarrow> Some r | None \<Rightarrow> cont acc (x # xs))
      else cont acc (x # xs))"

text \<open>
  \<open>match_here p prev acc mk s\<close> matches \<open>p\<close> at the start of \<open>s\<close>; \<open>prev\<close> is the character
  before the match, \<open>acc\<close> the text consumed so far (reversed), \<open>mk\<close> the marks set so far.
\<close>

fun match_here :: "node list \<Rightarrow> char option \<Rightarrow> string \<Rightarrow> marks \<Rightarrow> string \<Rightarrow> found option" where
  "match_here [] prev acc mk s = Some (acc, mk, s)"
| "match_here (Lit c # p) prev acc mk [] = None"
| "match_here (Lit c # p) prev acc mk (x # xs) =
     (if x = c then match_here p prev (x # acc) mk xs else None)"
| "match_here (One k # p) prev acc mk [] = None"
| "match_here (One k # p) prev acc mk (x # xs) =
     (if accepts k x then match_here p prev (x # acc) mk xs else None)"
| "match_here (Plus k # p) prev acc mk [] = None"
| "match_here (Plus k # p) prev acc mk (x # xs) =
     (if accepts k x then rep k (\<lambda>a t. match_here p prev a mk t) (x # acc) xs else None)"
| "match_here (Star k # p) prev acc mk s = rep k (\<lambda>a t. match_here p prev a mk t) acc s"
| "match_here (Opt k # p) prev acc mk [] = match_here p prev acc mk []"
| "match_here (Opt k # p) prev acc mk (x # xs) =
     (if accepts k x
      then (case match_here p prev (x # acc) mk xs of
              Some r \<Rightarrow> Some r
            | None \<Rightarrow> match_here p prev acc mk (x # xs))
      else match_here p prev acc mk (x # xs))"
| "match_here (WordB # p) prev acc mk s =
     (if at_boundary (last_char prev acc) s then match_here p prev acc mk s else None)"
| "match_here (Mark i # p) prev acc mk s = match_here p prev acc ((i, length acc) # mk) s"

text \<open>The match object handed to a replacement: the matched text and the marks.\<close>

type_synonym matched = "string \<times> marks"

definition group :: "nat \<Rightarrow> matched \<Rightarrow> string" where
  "group k mt = (case (map_of (snd mt) (2 * k - 2), map_of (snd mt) (2 * k - 1)) of
       (Some i, Some j) \<Rightarrow> take (j - i) (drop i (fst mt))
     | _ \<Rightarrow> [])"

text \<open>
  \<^verbatim>\<open>re.sub(pattern, repl, string)\<close>: scan from the left, replace each leftmost match and go
  on behind it.  An empty match is replaced too and the scan moves on by one character;
  none of the scripts' patterns can match the empty string.
\<close>

fun sub_from :: "node list \<Rightarrow> (matched \<Rightarrow> string) \<Rightarrow> char option \<Rightarrow> string \<Rightarrow> string" where
  "sub_from p r prev s =
     (case match_here p prev [] [] s of
        Some (acc, mk, rest) \<Rightarrow>
          if length rest < length s
          then r (rev acc, mk) @ sub_from p r (last_char prev acc) rest
          else r (rev acc, mk) @ (case s of [] \<Rightarrow> [] | c # cs \<Rightarrow> c # sub_from p r (Some c) cs)
      | None \<Rightarrow> (case s of [] \<Rightarrow> [] | c # cs \<Rightarrow> c # sub_from p r (Some c) cs))"

definition re_sub :: "node list \<Rightarrow> (matched \<Rightarrow> string) \<Rightarrow> string \<Rightarrow> string" where
  "re_sub p r s = sub_from p r None s"

text \<open>\<^verbatim>\<open>re.search\<close>: the leftmost match, if there is one.\<close>

fun search_from :: "node list \<Rightarrow> char option \<Rightarrow> string \<Rightarrow> found option" where
  "search_from p prev s =
     (case match_here p prev [] [] s of
        Some f \<Rightarrow> Some f
      | None \<Rightarrow> (case s of [] \<Rightarrow> None | c # cs \<Rightarrow> search_from p (Some c) cs))"

definition re_search :: "node list \<Rightarrow> string \<Rightarrow> found option" where
  "re_search p s = search_from p None s"

text \<open>\<^verbatim>\<open>re.finditer\<close>: the start and end positions of the successive matches.\<close>

fun finditer_from :: "node list \<Rightarrow> char option \<Rightarrow> nat \<Rightarrow> string \<Rightarrow> (nat \<times> nat) list" where
  "finditer_from p prev pos s =
     (case match_here p prev [] [] s of
        Some (acc, mk, rest) \<Rightarrow>
          if length rest < length s
          then (pos, pos + length acc) # finditer_from p (last_char prev acc) (pos + length acc) rest
          else (pos, pos) # (case s of [] \<Rightarrow> [] | c # cs \<Rightarrow> finditer_from p (Some c) (Suc pos) cs)
      | None \<Rightarrow> (case s of [] \<Rightarrow> [] | c # cs \<Rightarrow> finditer_from p (Some c) (Suc pos) cs))"

definition re_finditer :: "node list \<Rightarrow> string \<Rightarrow> (nat \<times> nat) list" where
  "re_finditer p s = finditer_from p None 0 s"

text \<open>A replacement string without group references, and one given as a template.\<close>

definition const_repl :: "string \<Rightarrow> matched \<Rightarrow> string" where
  "const_repl t mt = t"

datatype piece = Txt string | Grp nat

definition template :: "piece list \<Rightarrow> matched \<Rightarrow> string" where
  "template ps mt = concat (map (\<lambda>x. case x of Txt t \<Rightarrow> t | Grp k \<Rightarrow> group k mt) ps)"

section \<open>The text transformations of the six scripts\<close>

definition quotes :: string where
  "quotes = [CHR 0x27, CHR 0x22]"

subsection \<open>fix-graphql-mocks.py\<close>

definition graphql_pattern :: "node list" where
  "graphql_pattern = WordB # lits ''graphqlClient.request.mock''"

definition graphql_transform :: "string \<Rightarrow> string" where
  "graphql_transform content =
     re_sub graphql_pattern (const_repl ''vi.mocked(graphqlClient).request.mock'') content"

subsection \<open>fix-simulate-complete.py\<close>

definition import_pattern :: "node list" where
  "import_pattern =
     Mark 0 # lits ''import'' @ Plus (Except '';'') # lits ''from '' @
     [One (Only quotes), Plus (Except (quotes @ '';'')), One (Only quotes), Lit CHR '';'',
      Mark 1, Lit CHR ''\<newline>'']"

definition imports_to_add :: string where
  "imports_to_add =
     ''import type { Vault, SimulationResult } from '../../types/generated.js';\<newline>''"

text \<open>The loop keeps the last match; the new line goes in at that match's end.\<close>

definition add_imports :: "string \<Rightarrow> string" where
  "add_imports content =
     (case re_finditer import_pattern content of
        [] \<Rightarrow> content
      | m # ms \<Rightarrow>
          let insert_pos = snd (last (m # ms)) in
          take insert_pos content @ imports_to_add @ drop insert_pos content)"

definition simulation_result_pattern :: "node list" where
  "simulation_result_pattern =
     lits ''const '' @ [Mark 0, Plus Word, Mark 1] @ lits '': SimulationResult = {'' @
     [Mark 2, Plus (Except ''}''), Mark 3] @ lits ''};''"

definition replace_simulation_result :: "matched \<Rightarrow> string" where
  "replace_simulation_result mt =
     (let var_name = group 1 mt; current_fields = group 2 mt in
      ''const '' @ var_name @
      ('': SimulationResult = {\<newline>'' @
         ''    totalSupply: BigInt('2000000000000000000'),\<newline>'' @
         ''    totalAssets: BigInt('2000000000'),\<newline>'' @
         ''    pricePerShare: BigInt('1050000000000000000'),\<newline>'' @
         ''    managementFees: BigInt('0'),\<newline>'' @
         ''    performanceFees: BigInt('0'),\<newline>'' @
         ''    excessReturns: BigInt('0'),\<newline>'' @
         ''    periodNetApr: 0,\<newline>'' @
         ''    linearNetApr: 0,\<newline>'' @
         ''    compoundedNetApr: 0,\<newline>'' @
         ''    totalAssetsAtEnd: BigInt('2000000000'),\<newline>'' @
         ''    totalSupplyAtEnd: BigInt('2000000000000000000'),\<newline>'' @
         ''  };''))"

definition complete_state_pattern :: "node list" where
  "complete_state_pattern = lits ''mockVault.state''"

definition complete_cast_pattern :: "node list" where
  "complete_cast_pattern = lits ''as Vault''"

definition complete_mock_pattern :: "node list" where
  "complete_mock_pattern =
     lits ''vi.mocked(graphqlClient).request.mockResolvedValueOnce({ vault: mockVault });''"

definition complete_request_pattern :: "node list" where
  "complete_request_pattern = lits ''.request.mockResolvedValueOnce({ vault: mockVault })''"

definition complete_transform :: "string \<Rightarrow> string" where
  "complete_transform content =
     (let content = add_imports content;
          content = re_sub simulation_result_pattern replace_simulation_result content;
          content = re_sub complete_state_pattern (const_repl ''(mockVault as any).state'') content;
          content = re_sub complete_cast_pattern (const_repl ''as any'') content;
          content = re_sub complete_mock_pattern
            (const_repl ''vi.mocked(graphqlClient).request.mockResolvedValueOnce({ vault: mockVault } as any);'')
            content;
          content = re_sub complete_request_pattern
            (const_repl ''.request.mockResolvedValueOnce({ vault: mockVault } as any)'') content
      in content)"

subsection \<open>fix-simulate-final.py\<close>

definition final_type_pattern :: "node list" where
  "final_type_pattern = lits '': SimulationResult = {''"

definition patterns_to_fix :: "(node list \<times> string) list" where
  "patterns_to_fix =
   [(lits ''const withdrawalResult: LagoonSimulationResult = {'' @ [Star Space] @
     lits ''totalSupply: BigInt('' @ [Plus (Except ''}''), Lit CHR ''}'', Star Space] @
     lits ''totalAssets: BigInt('' @ [Plus (Except ''}''), Lit CHR ''}'', Star Space] @
     lits ''pricePerShare: BigInt('' @ [Plus (Except ''}''), Lit CHR ''}'', Star Space] @
     lits ''};'',
     (''const withdrawalResult: LagoonSimulationResult = {\<newline>'' @
        ''    totalSupply: BigInt('1500000000000000000'),\<newline>'' @
        ''    totalAssets: BigInt('1500000000'),\<newline>'' @
        ''    feesAccrued: BigInt('5000000'),\<newline>'' @
        ''    pricePerShare: BigInt('1000000000000000000'),\<newline>'' @
        ''  };'')),
    (lits ''const appreciatedResult: LagoonSimulationResult = {'' @ [Star Space] @
     lits ''totalSupply: BigInt('' @ [Plus (Except ''}''), Lit CHR ''}'', Star Space] @
     lits ''totalAssets: BigInt('' @ [Plus (Except ''}''), Lit CHR ''}'', Star Space] @
     lits ''};'',
     (''const appreciatedResult: LagoonSimulationResult = {\<newline>'' @
        ''    totalSupply: BigInt('2000000000000000000'),\<newline>'' @
        ''    totalAssets: BigInt('2100000000'),\<newline>'' @
        ''    feesAccrued: BigInt('10000000'),\<newline>'' @
        ''    pricePerShare: BigInt('1100000000000000000'),\<newline>'' @
        ''  };'')),
    (lits ''const newVaultResult: LagoonSimulationResult = {'' @ [Star Space] @
     lits ''totalSupply: BigInt('' @ [Plus (Except ''}''), Lit CHR ''}'', Star Space] @
     lits ''totalAssets: BigInt('' @ [Plus (Except ''}''), Lit CHR ''}'', Star Space] @
     lits ''pricePerShare: BigInt('' @ [Plus (Except ''}''), Lit CHR ''}'', Star Space] @
     lits ''};'',
     (''const newVaultResult: LagoonSimulationResult = {\<newline>'' @
        ''    totalSupply: BigInt('1000000000000000000'),\<newline>'' @
        ''    totalAssets: BigInt('1000000000'),\<newline>'' @
        ''    feesAccrued: BigInt('0'),\<newline>'' @
        ''    pricePerShare: BigInt('1000000000000000000'),\<newline>'' @
        ''  };''))]"

definition final_mock_pattern :: "node list" where
  "final_mock_pattern =
     lits ''vi.mocked(simulateVaultManagement).mockReturnValue('' @
     [Mark 0, Plus (Except '')''), Mark 1] @ lits '');''"

definition final_mock_repl :: "matched \<Rightarrow> string" where
  "final_mock_repl =
     template [Txt ''vi.mocked(simulateVaultManagement).mockReturnValue('', Grp 1, Txt '' as any);'']"

definition final_vault_pattern :: "node list" where
  "final_vault_pattern = lits ''{ vault: mockVault } as any''"

definition final_state_pattern :: "node list" where
  "final_state_pattern = lits ''(mockVault as any).state''"

definition final_transform :: "string \<Rightarrow> string" where
  "final_transform content =
     (let content = re_sub final_type_pattern (const_repl '': LagoonSimulationResult = {'') content;
          content = fold (\<lambda>(pattern, replacement) content.
                            re_sub pattern (const_repl replacement) content)
                         patterns_to_fix content;
          content = re_sub final_mock_pattern final_mock_repl content;
          content = re_sub final_vault_pattern (const_repl ''{ vault: mockVault }'') content;
          content = re_sub final_state_pattern (const_repl ''(mockVault as any).state'') content
      in content)"

subsection \<open>fix-simulate-vault.py\<close>

definition mock_vault_replacement :: string where
  "mock_vault_replacement =
     (''  const mockVault: Vault = {\<newline>'' @
        ''    id: 'vault-test',\<newline>'' @
        ''    address: '0x1234567890123456789012345678901234567890',\<newline>'' @
        ''    name: 'Test Vault',\<newline>'' @
        ''    symbol: 'TEST',\<newline>'' @
        ''    decimals: 18,\<newline>'' @
        ''    description: 'Test vault for simulation',\<newline>'' @
        ''    shortDescription: 'Test vault',\<newline>'' @
        ''    isVisible: true,\<newline>'' @
        ''    inception: 1700000000,\<newline>'' @
        ''    maxCapacity: '10000000000000000000000',\<newline>'' @
        ''    logoUrl: 'https://example.com/test.png',\<newline>'' @
        ''    asset: {\<newline>'' @
        ''      id: 'asset-usdc',\<newline>'' @
        ''      address: '0xabcdef1234567890abcdef1234567890abcdef12',\<newline>'' @
        ''      symbol: 'USDC',\<newline>'' @
        ''      name: 'USD Coin',\<newline>'' @
        ''      decimals: 6,\<newline>'' @
        ''      network: 'Arbitrum',\<newline>'' @
        ''      logoUrl: 'https://example.com/usdc.png',\<newline>'' @
        ''    },\<newline>'' @
        ''    chain: {\<newline>'' @
        ''      id: '42161',\<newline>'' @
        ''      name: 'Arbitrum',\<newline>'' @
        ''      nativeToken: 'ETH',\<newline>'' @
        ''      factory: '0xfactory123',\<newline>'' @
        ''      isVisible: true,\<newline>'' @
        ''      logoUrl: 'https://example.com/arbitrum.png',\<newline>'' @
        ''    },\<newline>'' @
        ''    state: {\<newline>'' @
        ''      totalSupply: '1000000000000000000',\<newline>'' @
        ''      totalAssets: '1000000000',\<newline>'' @
        ''      totalAssetsUsd: 1000.0,\<newline>'' @
        ''      totalSharesIssued: '1000000000000000000',\<newline>'' @
        ''      highWaterMark: '1000000000',\<newline>'' @
        ''      lastFeeTime: '1700000000',\<newline>'' @
        ''      managementFee: '200',\<newline>'' @
        ''      performanceFee: '1000',\<newline>'' @
        ''      version: 'v1',\<newline>'' @
        ''      safeAssetBalance: '500000000',\<newline>'' @
        ''      pendingSiloBalances: {\<newline>'' @
        ''        assets: '100000000',\<newline>'' @
        ''        shares: '100000000000000000',\<newline>'' @
        ''      },\<newline>'' @
        ''      pendingSettlement: {\<newline>'' @
        ''        assets: '50000000',\<newline>'' @
        ''        shares: '50000000000000000',\<newline>'' @
        ''      },\<newline>'' @
        ''    },\<newline>'' @
        ''    airdrops: [],\<newline>'' @
        ''    incentives: [],\<newline>'' @
        ''    nativeYields: [],\<newline>'' @
        ''    curators: [\<newline>'' @
        ''      {\<newline>'' @
        ''        id: 'curator-test',\<newline>'' @
        ''        name: 'Test Curator',\<newline>'' @
        ''        description: 'Test curator for simulation',\<newline>'' @
        ''        logoUrl: 'https://example.com/curator.png',\<newline>'' @
        ''      },\<newline>'' @
        ''    ],\<newline>'' @
        ''  } as Vault;'')"

definition vault_pattern :: "node list" where
  "vault_pattern =
     lits ''const mockVault: VaultData = {'' @ [Plus (Except ''}'')] @
     lits ''{'' @ [Plus (Except ''}'')] @ lits ''} as const,'' @ [Plus (Except ''}'')] @
     lits ''{'' @ [Plus (Except ''}'')] @
     lits ''{'' @ [Plus (Except ''}'')] @ lits ''} as const,'' @ [Plus (Except ''}'')] @
     lits ''{'' @ [Plus (Except ''}'')] @ lits ''} as const,'' @ [Plus (Except ''}'')] @
     lits ''} as const,'' @ [Plus (Except ''}'')] @ lits ''} as VaultData;''"

definition fees_pattern :: "node list" where
  "fees_pattern =
     [Mark 0, Plus Space, Mark 1] @ lits ''feesAccrued: BigInt('' @
     [One (Only quotes), Plus (Only ''0123456789''), One (Only quotes), Lit CHR '')'',
      Opt (Only '',''), Lit CHR ''\<newline>'']"

definition json_pattern :: "node list" where
  "json_pattern =
     lits ''const content = JSON.parse(result.content[0].text) as Record<string, unknown>;''"

definition vault_transform :: "string \<Rightarrow> string" where
  "vault_transform content =
     (let content = re_sub vault_pattern (const_repl mock_vault_replacement) content;
          content = re_sub fees_pattern (const_repl []) content;
          content = re_sub json_pattern
            (const_repl ''const content = JSON.parse(result.content[0].text as string) as Record<string, unknown>;'')
            content
      in content)"

subsection \<open>fix-simulation-mocks.py\<close>

definition mocks_pattern :: "node list" where
  "mocks_pattern =
     lits ''vi.mocked(simulateVaultManagement).mockReturnValue('' @
     [Mark 0, Plus Word, Mark 1] @ lits '' as any);''"

definition mocks_repl :: "matched \<Rightarrow> string" where
  "mocks_repl = template [Txt ''mockSimulateVaultManagement('', Grp 1, Txt '');'']"

definition mocks_transform :: "string \<Rightarrow> string" where
  "mocks_transform content = re_sub mocks_pattern mocks_repl content"

subsection \<open>fix-simulation-results.py\<close>

definition mock_block :: string where
  "mock_block =
    (''const mockSimulationResult: SimulationResult = {\<newline>'' @
     ''    totalSupply: BigInt('2000000000000000000'),\<newline>'' @
     ''    totalAssets: BigInt('2000000000'),\<newline>'' @
     ''    feesAccrued: BigInt('10000000'),\<newline>'' @
     ''    pricePerShare: BigInt('1050000000000000000'),\<newline>'' @
     ''  };'')"

definition withdrawal_block :: string where
  "withdrawal_block =
    (''const withdrawalResult: SimulationResult = {\<newline>'' @
     ''    totalSupply: BigInt('1500000000000000000'),\<newline>'' @
     ''    totalAssets: BigInt('1500000000'),\<newline>'' @
     ''    feesAccrued: BigInt('5000000'),\<newline>'' @
     ''    pricePerShare: BigInt('1000000000000000000'),\<newline>'' @
     ''  };'')"

definition appreciated_block :: string where
  "appreciated_block =
    (''const appreciatedResult: SimulationResult = {\<newline>'' @
     ''    totalSupply: BigInt('2000000000000000000'),\<newline>'' @
     ''    totalAssets: BigInt('2100000000'),\<newline>'' @
     ''    feesAccrued: BigInt('10000000'),\<newline>'' @
     ''    pricePerShare: BigInt('1100000000000000000'),\<newline>'' @
     ''  };'')"

definition new_vault_block :: string where
  "new_vault_block =
    (''const newVaultResult: SimulationResult = {\<newline>'' @
     ''    totalSupply: BigInt('1000000000000000000'),\<newline>'' @
     ''    totalAssets: BigInt('1000000000'),\<newline>'' @
     ''    feesAccrued: BigInt('0'),\<newline>'' @
     ''    pricePerShare: BigInt('1000000000000000000'),\<newline>'' @
     ''  };'')"

definition simulation_patterns :: "(node list \<times> string) list" where
  "simulation_patterns =
     [(lits ''const mockSimulationResult: SimulationResult = {'' @ [Plus (Except ''}'')] @ lits ''};'',
       mock_block),
      (lits ''const withdrawalResult: SimulationResult = {'' @ [Plus (Except ''}'')] @ lits ''};'',
       withdrawal_block),
      (lits ''const appreciatedResult: SimulationResult = {'' @ [Plus (Except ''}'')] @ lits ''};'',
       appreciated_block),
      (lits ''const newVaultResult: SimulationResult = {'' @ [Plus (Except ''}'')] @ lits ''};'',
       new_vault_block)]"

definition any_data_pattern :: "node list" where
  "any_data_pattern = lits ''as anyData''"

definition results_transform :: "string \<Rightarrow> string" where
  "results_transform content =
     (let content = fold (\<lambda>(pattern, replacement) content.
                            re_sub pattern (const_repl replacement) content)
                         simulation_patterns content;
          content = re_sub any_data_pattern (const_repl ''as any'') content
      in content)"

section \<open>Files, standard output and the exit status\<close>

text \<open>
  A file is a sequence of bytes.  Opening it in text mode decodes the bytes with a codec and
  reads every line end (CR LF, CR or LF) as LF; writing in text mode writes every LF as the
  platform's line separator and encodes the result.  Five scripts name the codec utf-8;
  fix-graphql-mocks.py names none and gets the codec of the locale.  The codecs are given
  on the texts of this model: a byte sequence that is not UTF-8, or that encodes a code
  point above 255, is not decoded.
\<close>

datatype error = FileNotFoundError | UnicodeDecodeError | UnicodeEncodeError | OSError

datatype codec = Utf8 | Latin1 | Ascii

fun utf8_encode :: "string \<Rightarrow> string" where
  "utf8_encode [] = []"
| "utf8_encode (c # cs) =
     (if (of_char c :: nat) < 128 then c # utf8_encode cs
      else char_of (192 + (of_char c :: nat) div 64) #
           char_of (128 + (of_char c :: nat) mod 64) # utf8_encode cs)"

fun utf8_decode :: "string \<Rightarrow> string option" where
  "utf8_decode [] = Some []"
| "utf8_decode [b] = (if (of_char b :: nat) < 128 then Some [b] else None)"
| "utf8_decode (b # b2 # bs) =
     (if (of_char b :: nat) < 128 then map_option ((#) b) (utf8_decode (b2 # bs))
      else if ((of_char b :: nat) = 194 \<or> (of_char b :: nat) = 195) \<and>
              128 \<le> (of_char b2 :: nat) \<and> (of_char b2 :: nat) < 192
      then map_option
             ((#) (char_of (((of_char b :: nat) - 192) * 64 + ((of_char b2 :: nat) - 128))))
             (utf8_decode bs)
      else None)"

fun decode :: "codec \<Rightarrow> string \<Rightarrow> string option" where
  "decode Utf8 b = utf8_decode b"
| "decode Latin1 b = Some b"
| "decode Ascii b = (if list_all (\<lambda>x. (of_char x :: nat) < 128) b then Some b else None)"

fun encode :: "codec \<Rightarrow> string \<Rightarrow> string option" where
  "encode Utf8 t = Some (utf8_encode t)"
| "encode Latin1 t = Some t"
| "encode Ascii t = (if list_all (\<lambda>x. (of_char x :: nat) < 128) t then Some t else None)"

definition CR :: char where
  "CR = CHR 0x0D"

definition LF :: char where
  "LF = CHR 0x0A"

text \<open>Reading in text mode: CR LF and a CR alone become LF.\<close>

fun universal_newlines :: "string \<Rightarrow> string" where
  "universal_newlines [] = []"
| "universal_newlines [c] = (if c = CR then [LF] else [c])"
| "universal_newlines (c # d # cs) =
     (if c = CR
      then LF # (if d = LF then universal_newlines cs else universal_newlines (d # cs))
      else c # universal_newlines (d # cs))"

text \<open>Writing in text mode: every LF becomes the line separator of the platform.\<close>

definition platform_newlines :: "string \<Rightarrow> string \<Rightarrow> string" where
  "platform_newlines sep t = concat (map (\<lambda>c. if c = LF then sep else [c]) t)"

text \<open>
  What stands at a path, and what opening the path for writing does: it fails and leaves
  the file as it was (\<open>NoOpen\<close>), or it succeeds and empties the file, after which writing the
  data fails (\<open>NoWrite\<close>) or succeeds (\<open>Writable\<close>).
\<close>

datatype fnode = Missing | Unreadable | Bytes string

datatype mode = NoOpen | NoWrite | Writable

text \<open>
  Printing does not fail.  A line printed with the check mark is \<open>Updated\<close>, one with the
  cross is \<open>Failed\<close>.
\<close>

datatype msg = Line string | Updated string | Failed string error

record world =
  files :: "string \<Rightarrow> fnode"
  mode :: "string \<Rightarrow> mode"
  linesep :: string
  locale_encoding :: codec
  stdout :: "msg list"

text \<open>\<^verbatim>\<open>open(path, 'r', encoding=codec)\<close> and \<^verbatim>\<open>read()\<close>.\<close>

definition read_text :: "world \<Rightarrow> codec \<Rightarrow> string \<Rightarrow> error + string" where
  "read_text w c path =
     (case files w path of
        Missing \<Rightarrow> Inl FileNotFoundError
      | Unreadable \<Rightarrow> Inl OSError
      | Bytes b \<Rightarrow>
          (case decode c b of
             None \<Rightarrow> Inl UnicodeDecodeError
           | Some t \<Rightarrow> Inr (universal_newlines t)))"

text \<open>
  \<^verbatim>\<open>open(path, 'w', encoding=codec)\<close> and \<^verbatim>\<open>write(t)\<close>: the exception raised, if any, and the
  world afterwards.  Once the file is open it is empty, whatever fails later.
\<close>

definition write_text :: "world \<Rightarrow> codec \<Rightarrow> string \<Rightarrow> string \<Rightarrow> error option \<times> world" where
  "write_text w c path t =
     (case mode w path of
        NoOpen \<Rightarrow> (Some OSError, w)
      | m \<Rightarrow>
          (case encode c (platform_newlines (linesep w) t) of
             None \<Rightarrow> (Some UnicodeEncodeError, w\<lparr>files := (files w)(path := Bytes [])\<rparr>)
           | Some b \<Rightarrow>
               if m = NoWrite
               then (Some OSError, w\<lparr>files := (files w)(path := Bytes [])\<rparr>)
               else (None, w\<lparr>files := (files w)(path := Bytes b)\<rparr>)))"

definition print :: "msg \<Rightarrow> world \<Rightarrow> world" where
  "print l w = w\<lparr>stdout := stdout w @ [l]\<rparr>"

text \<open>
  How a run of the interpreter ends: the exit status, the exception that left the program
  uncaught (Python then prints a traceback and exits with status 1), and the world.
\<close>

record outcome =
  status :: nat
  uncaught :: "error option"
  final :: world

definition exit_with :: "bool \<Rightarrow> world \<Rightarrow> outcome" where
  "exit_with success w = \<lparr>status = (if success then 0 else 1), uncaught = None, final = w\<rparr>"

definition traceback :: "error \<Rightarrow> world \<Rightarrow> outcome" where
  "traceback e w = \<lparr>status = 1, uncaught = Some e, final = w\<rparr>"

section \<open>The six scripts\<close>

definition price_history_path :: string where
  "price_history_path =
     ''/Users/francoisschuers/Documents/workspace/lagoon-mcp/tests/tools/get-price-history.test.ts''"

definition simulate_vault_path :: string where
  "simulate_vault_path =
     ''/Users/francoisschuers/Documents/workspace/lagoon-mcp/src/tools/__tests__/simulate-vault.test.ts''"

text \<open>
  fix-graphql-mocks.py is a module-level script with no handler, and it opens its target
  without an encoding, so the codec is the locale's.
\<close>

definition fix_graphql_mocks :: "world \<Rightarrow> outcome" where
  "fix_graphql_mocks w =
     (case read_text w (locale_encoding w) price_history_path of
        Inl e \<Rightarrow> traceback e w
      | Inr content \<Rightarrow>
          (case write_text w (locale_encoding w) price_history_path (graphql_transform content) of
             (Some e, w) \<Rightarrow> traceback e w
           | (None, w) \<Rightarrow>
               \<lparr>status = 0, uncaught = None,
                final = print (Line (''Corrections appliqu'' @ [CHR 0xE9] @
                                      ''es dans get-price-history.test.ts'')) w\<rparr>))"

text \<open>
  The other five define a function that returns whether it succeeded, with the whole body in
  one \<^verbatim>\<open>try\<close>, and exit with \<^verbatim>\<open>sys.exit(0 if success else 1)\<close>.  They open the target
  with \<^verbatim>\<open>encoding='utf-8'\<close>.
\<close>

definition fix_simulate_vault_complete :: "world \<Rightarrow> bool \<times> world" where
  "fix_simulate_vault_complete w =
     (let file_path = simulate_vault_path in
      case read_text w Utf8 file_path of
        Inl e \<Rightarrow> (False, print (Failed file_path e) w)
      | Inr content \<Rightarrow>
          let w = print (Line (''Processing '' @ file_path @ ''...'')) w;
              content = complete_transform content;
              w = print (Line ''Applied fixes:'') w;
              w = print (Line ''- Added proper imports for Vault and SimulationResult types'') w;
              w = print (Line ''- Corrected SimulationResult objects with all required fields'') w;
              w = print (Line ''- Fixed mockVault.state access with proper casts'') w;
              w = print (Line ''- Added type assertions for GraphQL mock responses'') w
          in case write_text w Utf8 file_path content of
               (Some e, w) \<Rightarrow> (False, print (Failed file_path e) w)
             | (None, w) \<Rightarrow> (True, print (Updated file_path) w))"

definition fix_simulate_vault_final :: "world \<Rightarrow> bool \<times> world" where
  "fix_simulate_vault_final w =
     (let file_path = simulate_vault_path in
      case read_text w Utf8 file_path of
        Inl e \<Rightarrow> (False, print (Failed file_path e) w)
      | Inr content \<Rightarrow>
          let w = print (Line (''Processing '' @ file_path @ ''...'')) w;
              content = final_transform content;
              w = print (Line ''Applied fixes:'') w;
              w = print (Line ''- Converted all SimulationResult to LagoonSimulationResult'') w;
              w = print (Line ''- Added missing feesAccrued properties'') w;
              w = print (Line ''- Fixed simulateVaultManagement mock calls with type casts'') w;
              w = print (Line ''- Cleaned up GraphQL mock type assertions'') w
          in case write_text w Utf8 file_path content of
               (Some e, w) \<Rightarrow> (False, print (Failed file_path e) w)
             | (None, w) \<Rightarrow> (True, print (Updated file_path) w))"

definition fix_simulate_vault_test :: "world \<Rightarrow> bool \<times> world" where
  "fix_simulate_vault_test w =
     (let file_path = simulate_vault_path in
      case read_text w Utf8 file_path of
        Inl e \<Rightarrow> (False, print (Failed file_path e) w)
      | Inr content \<Rightarrow>
          let w = print (Line (''Processing '' @ file_path @ ''...'')) w;
              content = vault_transform content;
              w = print (Line ''Applied fixes:'') w;
              w = print (Line ''- Updated mockVault to proper Vault type with all required fields'') w;
              w = print (Line ''- Removed feesAccrued properties from SimulationResult objects'') w;
              w = print (Line ''- Fixed JSON.parse type assertions'') w
          in case write_text w Utf8 file_path content of
               (Some e, w) \<Rightarrow> (False, print (Failed file_path e) w)
             | (None, w) \<Rightarrow> (True, print (Updated file_path) w))"

definition fix_all_simulation_mocks :: "world \<Rightarrow> bool \<times> world" where
  "fix_all_simulation_mocks w =
     (let file_path = simulate_vault_path in
      case read_text w Utf8 file_path of
        Inl e \<Rightarrow> (False, print (Failed file_path e) w)
      | Inr content \<Rightarrow>
          let w = print (Line (''Processing '' @ file_path @ ''...'')) w;
              content = mocks_transform content;
              w = print (Line ''Applied fixes:'') w;
              w = print (Line ''- Replaced all simulateVaultManagement mocks with helper function'') w
          in case write_text w Utf8 file_path content of
               (Some e, w) \<Rightarrow> (False, print (Failed file_path e) w)
             | (None, w) \<Rightarrow> (True, print (Updated file_path) w))"

definition fix_simulation_results :: "world \<Rightarrow> bool \<times> world" where
  "fix_simulation_results w =
     (let file_path = simulate_vault_path in
      case read_text w Utf8 file_path of
        Inl e \<Rightarrow> (False, print (Failed file_path e) w)
      | Inr content \<Rightarrow>
          let w = print (Line (''Processing '' @ file_path @ ''...'')) w;
              content = results_transform content;
              w = print (Line ''Applied fixes:'') w;
              w = print (Line ''- Corrected all SimulationResult objects to match Lagoon SDK interface'') w;
              w = print (Line ''- Fixed anyData typo'') w
          in case write_text w Utf8 file_path content of
               (Some e, w) \<Rightarrow> (False, print (Failed file_path e) w)
             | (None, w) \<Rightarrow> (True, print (Updated file_path) w))"

text \<open>The scripts as programs: what a run from the command line does to the world.\<close>

datatype script =
  GraphqlMocks | SimulateComplete | SimulateFinal | SimulateVault | SimulationMocks
  | SimulationResults

definition main :: "(world \<Rightarrow> bool \<times> world) \<Rightarrow> world \<Rightarrow> outcome" where
  "main f w = (let (success, w) = f w in exit_with success w)"

fun run :: "script \<Rightarrow> world \<Rightarrow> outcome" where
  "run GraphqlMocks w = fix_graphql_mocks w"
| "run SimulateComplete w = main fix_simulate_vault_complete w"
| "run SimulateFinal w = main fix_simulate_vault_final w"
| "run SimulateVault w = main fix_simulate_vault_test w"
| "run SimulationMocks w = main fix_all_simulation_mocks w"
| "run SimulationResults w = main fix_simulation_results w"

fun target :: "script \<Rightarrow> string" where
  "target GraphqlMocks = price_history_path"
| "target s = simulate_vault_path"

fun transform :: "script \<Rightarrow> string \<Rightarrow> string" where
  "transform GraphqlMocks = graphql_transform"
| "transform SimulateComplete = complete_transform"
| "transform SimulateFinal = final_transform"
| "transform SimulateVault = vault_transform"
| "transform SimulationMocks = mocks_transform"
| "transform SimulationResults = results_transform"

fun codec_of :: "script \<Rightarrow> world \<Rightarrow> codec" where
  "codec_of GraphqlMocks w = locale_encoding w"
| "codec_of s w = Utf8"

section \<open>Rules, failures and a world without files\<close>

text \<open>
  A script's rules in the order in which the script lists them.  All but one are
  substitutions; fix-simulate-complete.py starts by inserting its import line.
\<close>

datatype rule = Substitute "node list" "matched \<Rightarrow> string" | InsertImports

fun apply_rule :: "rule \<Rightarrow> string \<Rightarrow> string" where
  "apply_rule (Substitute p r) content = re_sub p r content"
| "apply_rule InsertImports content = add_imports content"

fun pattern_of :: "rule \<Rightarrow> node list" where
  "pattern_of (Substitute p r) = p"
| "pattern_of InsertImports = import_pattern"

definition apply_rules :: "rule list \<Rightarrow> string \<Rightarrow> string" where
  "apply_rules rs content = fold apply_rule rs content"

fun rules :: "script \<Rightarrow> rule list" where
  "rules GraphqlMocks =
     [Substitute graphql_pattern (const_repl ''vi.mocked(graphqlClient).request.mock'')]"
| "rules SimulateComplete =
     [InsertImports,
      Substitute simulation_result_pattern replace_simulation_result,
      Substitute complete_state_pattern (const_repl ''(mockVault as any).state''),
      Substitute complete_cast_pattern (const_repl ''as any''),
      Substitute complete_mock_pattern
        (const_repl ''vi.mocked(graphqlClient).request.mockResolvedValueOnce({ vault: mockVault } as any);''),
      Substitute complete_request_pattern
        (const_repl ''.request.mockResolvedValueOnce({ vault: mockVault } as any)'')]"
| "rules SimulateFinal =
     Substitute final_type_pattern (const_repl '': LagoonSimulationResult = {'') #
     map (\<lambda>(pattern, replacement). Substitute pattern (const_repl replacement)) patterns_to_fix @
     [Substitute final_mock_pattern final_mock_repl,
      Substitute final_vault_pattern (const_repl ''{ vault: mockVault }''),
      Substitute final_state_pattern (const_repl ''(mockVault as any).state'')]"
| "rules SimulateVault =
     [Substitute vault_pattern (const_repl mock_vault_replacement),
      Substitute fees_pattern (const_repl []),
      Substitute json_pattern
        (const_repl ''const content = JSON.parse(result.content[0].text as string) as Record<string, unknown>;'')]"
| "rules SimulationMocks = [Substitute mocks_pattern mocks_repl]"
| "rules SimulationResults =
     map (\<lambda>(pattern, replacement). Substitute pattern (const_repl replacement)) simulation_patterns @
     [Substitute any_data_pattern (const_repl ''as any'')]"

text \<open>The exception that reading or writing the target raises in a run, if one does.\<close>

definition failure :: "script \<Rightarrow> world \<Rightarrow> error option" where
  "failure s w =
     (case read_text w (codec_of s w) (target s) of
        Inl e \<Rightarrow> Some e
      | Inr content \<Rightarrow> fst (write_text w (codec_of s w) (target s) (transform s content)))"

text \<open>The bytes that a script writes for the bytes it has read, if it gets that far.\<close>

definition rewritten :: "script \<Rightarrow> codec \<Rightarrow> string \<Rightarrow> string \<Rightarrow> string option" where
  "rewritten s c sep b =
     (case decode c b of
        None \<Rightarrow> None
      | Some t \<Rightarrow> encode c (platform_newlines sep (transform s (universal_newlines t))))"

text \<open>
  Worlds for the examples: no file at all, and one file that can be written, on a platform
  whose line separator is LF and whose locale is UTF-8.
\<close>

definition no_files :: world where
  "no_files =
     \<lparr>files = (\<lambda>path. Missing), mode = (\<lambda>path. Writable), linesep = [LF], locale_encoding = Utf8,
      stdout = []\<rparr>"

definition one_file :: "string \<Rightarrow> string \<Rightarrow> world" where
  "one_file path b = no_files\<lparr>files := (files no_files)(path := Bytes b)\<rparr>"

section \<open>Properties of patterns used in the proofs\<close>

text \<open>An item that cannot match without consuming a character.\<close>

fun takes_char :: "node \<Rightarrow> bool" where
  "takes_char (Lit c) = True"
| "takes_char (One k) = True"
| "takes_char (Plus k) = True"
| "takes_char n = False"

text \<open>
  \<open>stops p b nxt\<close>: no match of \<open>p\<close> can take in the character \<open>b\<close> when \<open>nxt\<close> follows it.
  No class of \<open>p\<close> accepts \<open>b\<close>, and a literal \<open>b\<close> in \<open>p\<close> is followed by a literal other than
  \<open>nxt\<close>.
\<close>

fun blocked :: "node list \<Rightarrow> char option \<Rightarrow> bool" where
  "blocked (Lit d # q) nxt = (Some d \<noteq> nxt)"
| "blocked q nxt = False"

fun stops :: "node list \<Rightarrow> char \<Rightarrow> char option \<Rightarrow> bool" where
  "stops [] b nxt = True"
| "stops (Lit c # p) b nxt = ((c \<noteq> b \<or> blocked p nxt) \<and> stops p b nxt)"
| "stops (One k # p) b nxt = (\<not> accepts k b \<and> stops p b nxt)"
| "stops (Plus k # p) b nxt = (\<not> accepts k b \<and> stops p b nxt)"
| "stops (Star k # p) b nxt = (\<not> accepts k b \<and> stops p b nxt)"
| "stops (Opt k # p) b nxt = (\<not> accepts k b \<and> stops p b nxt)"
| "stops (WordB # p) b nxt = False"
| "stops (Mark i # p) b nxt = stops p b nxt"

definition first_char :: "string \<Rightarrow> char option" where
  "first_char s = (case s of [] \<Rightarrow> None | c # _ \<Rightarrow> Some c)"

text \<open>\<open>ends_in p z\<close>: every match of \<open>p\<close> ends with the literal \<open>z\<close>.\<close>

definition ends_in :: "node list \<Rightarrow> char \<Rightarrow> bool" where
  "ends_in p z = (p \<noteq> [] \<and> last p = Lit z \<and> WordB \<notin> set p)"

text \<open>A match extended by the text that follows it.\<close>

definition extend :: "string \<Rightarrow> found option \<Rightarrow> found option" where
  "extend u = map_option (\<lambda>(acc, mk, rest). (acc, mk, rest @ u))"

text \<open>The substitutions of fix-simulate-complete.py that follow the insertion of the import.\<close>

definition complete_substitutions :: "string \<Rightarrow> string" where
  "complete_substitutions content =
     (let content = re_sub simulation_result_pattern replace_simulation_result content;
          content = re_sub complete_state_pattern (const_repl ''(mockVault as any).state'') content;
          content = re_sub complete_cast_pattern (const_repl ''as any'') content;
          content = re_sub complete_mock_pattern
            (const_repl ''vi.mocked(graphqlClient).request.mockResolvedValueOnce({ vault: mockVault } as any);'')
            content;
          content = re_sub complete_request_pattern
            (const_repl ''.request.mockResolvedValueOnce({ vault: mockVault } as any)'') content
      in content)"

section \<open>The inserted blocks and their feesAccrued lines\<close>

text \<open>
  The blocks that fix-simulation-results.py inserts, each cut in three: the text before the
  feesAccrued line, that line with the white space before it, and the text behind it.
\<close>

definition fees_line :: "string \<Rightarrow> string" where
  "fees_line n =
     ''\<newline>    feesAccrued: BigInt('' @ [CHR 0x27] @ n @ [CHR 0x27] @ ''),\<newline>''"

definition mock_head :: string where
  "mock_head =
     (''const mockSimulationResult: SimulationResult = {\<newline>'' @
      ''    totalSupply: BigInt('2000000000000000000'),\<newline>'' @
      ''    totalAssets: BigInt('2000000000'),'')"

definition mock_tail :: string where
  "mock_tail =
     (''    pricePerShare: BigInt('1050000000000000000'),\<newline>'' @
      ''  };'')"

definition withdrawal_head :: string where
  "withdrawal_head =
     (''const withdrawalResult: SimulationResult = {\<newline>'' @
      ''    totalSupply: BigInt('1500000000000000000'),\<newline>'' @
      ''    totalAssets: BigInt('1500000000'),'')"

definition withdrawal_tail :: string where
  "withdrawal_tail =
     (''    pricePerShare: BigInt('1000000000000000000'),\<newline>'' @
      ''  };'')"

definition appreciated_head :: string where
  "appreciated_head =
     (''const appreciatedResult: SimulationResult = {\<newline>'' @
      ''    totalSupply: BigInt('2000000000000000000'),\<newline>'' @
      ''    totalAssets: BigInt('2100000000'),'')"

definition appreciated_tail :: string where
  "appreciated_tail =
     (''    pricePerShare: BigInt('1100000000000000000'),\<newline>'' @
      ''  };'')"

definition new_vault_head :: string where
  "new_vault_head =
     (''const newVaultResult: SimulationResult = {\<newline>'' @
      ''    totalSupply: BigInt('1000000000000000000'),\<newline>'' @
      ''    totalAssets: BigInt('1000000000'),'')"

definition new_vault_tail :: string where
  "new_vault_tail =
     (''    pricePerShare: BigInt('1000000000000000000'),\<newline>'' @
      ''  };'')"

definition block_parts :: "(string \<times> string \<times> string) list" where
  "block_parts =
     [(mock_head, ''10000000'', mock_tail),
      (withdrawal_head, ''5000000'', withdrawal_tail),
      (appreciated_head, ''10000000'', appreciated_tail),
      (new_vault_head, ''0'', new_vault_tail)]"

definition inserted_blocks :: "string list" where
  "inserted_blocks = map (\<lambda>(h, n, t). h @ fees_line n @ t) block_parts"

section \<open>Facts about matching and substitution\<close>

declare sub_from.simps [simp del]
declare search_from.simps [simp del]
declare finditer_from.simps [simp del]

lemma sub_from_Nil:
  "sub_from p r prev [] = (case match_here p prev [] [] [] of Some (acc, mk, rest) \<Rightarrow> r (rev acc, mk) | None \<Rightarrow> [])"
  by (subst sub_from.simps) (simp split: option.splits)

lemma sub_from_Cons:
  "sub_from p r prev (c # cs) =
     (case match_here p prev [] [] (c # cs) of
        Some (acc, mk, rest) \<Rightarrow>
          if length rest < Suc (length cs)
          then r (rev acc, mk) @ sub_from p r (last_char prev acc) rest
          else r (rev acc, mk) @ c # sub_from p r (Some c) cs
      | None \<Rightarrow> c # sub_from p r (Some c) cs)"
  by (subst sub_from.simps) (simp split: option.splits)

lemma search_from_Nil: "search_from p prev [] = match_here p prev [] [] []"
  by (subst search_from.simps) (simp split: option.splits)

lemma search_from_Cons:
  "search_from p prev (c # cs) =
     (case match_here p prev [] [] (c # cs) of Some f \<Rightarrow> Some f | None \<Rightarrow> search_from p (Some c) cs)"
  by (subst search_from.simps) (simp split: option.splits)

lemma finditer_from_Nil:
  "finditer_from p prev pos [] =
     (case match_here p prev [] [] [] of Some (acc, mk, rest) \<Rightarrow> [(pos, pos)] | None \<Rightarrow> [])"
  by (subst finditer_from.simps) (simp split: option.splits)

lemma finditer_from_Cons:
  "finditer_from p prev pos (c # cs) =
     (case match_here p prev [] [] (c # cs) of
        Some (acc, mk, rest) \<Rightarrow>
          if length rest < Suc (length cs)
          then (pos, pos + length acc) # finditer_from p (last_char prev acc) (pos + length acc) rest
          else (pos, pos) # finditer_from p (Some c) (Suc pos) cs
      | None \<Rightarrow> finditer_from p (Some c) (Suc pos) cs)"
  by (subst finditer_from.simps) (simp split: option.splits)

lemma match_lits:
  "match_here (lits w @ p) prev acc mk s =
     (if prefix w s then match_here p prev (rev w @ acc) mk (drop (length w) s) else None)"
proof (induction w arbitrary: acc s)
  case Nil
  show ?case by (simp add: lits_def)
next
  case (Cons c w)
  show ?case
  proof (cases s)
    case Nil
    then show ?thesis by (simp add: lits_def)
  next
    case (Cons x xs)
    then show ?thesis using Cons.IH [of "x # acc" xs] by (auto simp: lits_def)
  qed
qed

lemma match_lits_only:
  "match_here (lits w) prev acc mk s =
     (if prefix w s then Some (rev w @ acc, mk, drop (length w) s) else None)"
  using match_lits [of w "[]" prev acc mk s] by simp

lemma search_none_sub: "search_from p prev s = None \<Longrightarrow> sub_from p r prev s = s"
proof (induction s arbitrary: prev)
  case Nil
  then show ?case by (simp add: search_from_Nil sub_from_Nil)
next
  case (Cons c cs)
  then show ?case by (simp add: search_from_Cons sub_from_Cons split: option.splits)
qed

lemma search_none_finditer: "search_from p prev s = None \<Longrightarrow> finditer_from p prev pos s = []"
proof (induction s arbitrary: prev pos)
  case Nil
  then show ?case by (simp add: search_from_Nil finditer_from_Nil)
next
  case (Cons c cs)
  then show ?case by (simp add: search_from_Cons finditer_from_Cons split: option.splits)
qed

lemma sub_lits_same:
  assumes "w \<noteq> []"
  shows "sub_from (lits w) (const_repl w) prev s = s"
proof (induction s arbitrary: prev rule: length_induct)
  case (1 s)
  show ?case
  proof (cases "prefix w s")
    case True
    then obtain t where s: "s = w @ t" by (auto simp: prefix_def)
    with assms have lt: "length t < length s" by (cases w) auto
    have "sub_from (lits w) (const_repl w) prev s
            = w @ sub_from (lits w) (const_repl w) (last_char prev (rev w)) t"
      using s lt by (subst sub_from.simps) (simp add: match_lits_only const_repl_def)
    also have "\<dots> = w @ t" using 1 lt by simp
    finally show ?thesis using s by simp
  next
    case False
    show ?thesis
    proof (cases s)
      case Nil
      then show ?thesis using False by (simp add: sub_from_Nil match_lits_only)
    next
      case (Cons c cs)
      then show ?thesis using False 1 by (simp add: sub_from_Cons match_lits_only)
    qed
  qed
qed

lemma match_prev:
  "WordB \<notin> set p \<Longrightarrow> match_here p prev acc mk s = match_here p prev' acc mk s"
proof (induction p arbitrary: acc mk s)
  case Nil
  show ?case by simp
next
  case (Cons n p)
  then have "\<And>acc mk s. match_here p prev acc mk s = match_here p prev' acc mk s"
    by simp
  then have ih: "\<And>acc mk. match_here p prev acc mk = match_here p prev' acc mk"
    by (intro ext)
  from Cons.prems have nb: "n \<noteq> WordB" by auto
  show ?case
  proof (cases s)
    case Nil
    with nb show ?thesis by (cases n) (simp_all add: ih)
  next
    case (Cons x xs)
    with nb show ?thesis by (cases n) (simp_all add: ih split: option.splits)
  qed
qed

lemma rep_Some:
  "rep k cont acc s = Some r \<Longrightarrow> \<exists>a t. cont a t = Some r \<and> length t \<le> length s"
proof (induction s arbitrary: acc)
  case Nil
  then show ?case by auto
next
  case (Cons x xs)
  show ?case
  proof (cases "accepts k x \<and> rep k cont (x # acc) xs \<noteq> None")
    case True
    then have "rep k cont (x # acc) xs = Some r" using Cons.prems by auto
    from Cons.IH [OF this] obtain a t where "cont a t = Some r" "length t \<le> length xs"
      by auto
    then have "cont a t = Some r \<and> length t \<le> length (x # xs)" by simp
    then show ?thesis by blast
  next
    case False
    then have "cont acc (x # xs) = Some r \<and> length (x # xs) \<le> length (x # xs)"
      using Cons.prems by (auto split: if_splits)
    then show ?thesis by blast
  qed
qed

lemma match_length_le:
  "match_here p prev acc mk s = Some (acc', mk', rest) \<Longrightarrow> length rest \<le> length s"
proof (induction p arbitrary: acc mk s)
  case Nil
  then show ?case by simp
next
  case (Cons n p)
  note ih = Cons.IH
  show ?case
  proof (cases n)
    case (Lit c)
    with Cons.prems ih show ?thesis by (cases s) (auto split: if_splits dest!: ih)
  next
    case (One k)
    with Cons.prems ih show ?thesis by (cases s) (auto split: if_splits dest!: ih)
  next
    case (Plus k)
    show ?thesis
    proof (cases s)
      case Nil
      with Plus Cons.prems show ?thesis by simp
    next
      case (Cons x xs)
      with Plus Cons.prems have "rep k (\<lambda>a t. match_here p prev a mk t) (x # acc) xs = Some (acc', mk', rest)"
        by (auto split: if_splits)
      from rep_Some [OF this] obtain a t where
        "match_here p prev a mk t = Some (acc', mk', rest)" "length t \<le> length xs" by auto
      with ih [of a mk t] Cons show ?thesis by simp
    qed
  next
    case (Star k)
    with Cons.prems have "rep k (\<lambda>a t. match_here p prev a mk t) acc s = Some (acc', mk', rest)"
      by simp
    from rep_Some [OF this] obtain a t where
      "match_here p prev a mk t = Some (acc', mk', rest)" "length t \<le> length s" by auto
    with ih [of a mk t] show ?thesis by simp
  next
    case (Opt k)
    with Cons.prems ih show ?thesis
      by (cases s) (auto split: if_splits option.splits dest!: ih)
  next
    case WordB
    with Cons.prems ih show ?thesis by (auto split: if_splits)
  next
    case (Mark i)
    with Cons.prems ih show ?thesis by auto
  qed
qed

lemma match_length_less:
  "list_ex takes_char p \<Longrightarrow> match_here p prev acc mk s = Some (acc', mk', rest) \<Longrightarrow>
   length rest < length s"
proof (induction p arbitrary: acc mk s)
  case Nil
  then show ?case by simp
next
  case (Cons n p)
  note ih = Cons.IH
  show ?case
  proof (cases n)
    case (Lit c)
    with Cons.prems show ?thesis
      by (cases s) (auto split: if_splits dest!: match_length_le)
  next
    case (One k)
    with Cons.prems show ?thesis
      by (cases s) (auto split: if_splits dest!: match_length_le)
  next
    case (Plus k)
    show ?thesis
    proof (cases s)
      case Nil
      with Plus Cons.prems show ?thesis by simp
    next
      case (Cons x xs)
      with Plus Cons.prems have "rep k (\<lambda>a t. match_here p prev a mk t) (x # acc) xs = Some (acc', mk', rest)"
        by (auto split: if_splits)
      from rep_Some [OF this] obtain a t where
        "match_here p prev a mk t = Some (acc', mk', rest)" "length t \<le> length xs" by auto
      with match_length_le [of p prev a mk t] Cons show ?thesis by simp
    qed
  next
    case (Star k)
    with Cons.prems have p: "list_ex takes_char p" by simp
    from Star Cons.prems have "rep k (\<lambda>a t. match_here p prev a mk t) acc s = Some (acc', mk', rest)"
      by simp
    from rep_Some [OF this] obtain a t where
      "match_here p prev a mk t = Some (acc', mk', rest)" "length t \<le> length s" by auto
    with ih [OF p, of a mk t] show ?thesis by simp
  next
    case (Opt k)
    with Cons.prems have p: "list_ex takes_char p" by simp
    from Opt Cons.prems ih [OF p] show ?thesis
      by (cases s) (auto split: if_splits option.splits dest!: ih [OF p])
  next
    case WordB
    with Cons.prems ih show ?thesis by (auto split: if_splits)
  next
    case (Mark i)
    with Cons.prems ih show ?thesis by auto
  qed
qed

lemma extend_simps [simp]:
  "extend u None = None"
  "extend u (Some (acc, mk, rest)) = Some (acc, mk, rest @ u)"
  by (simp_all add: extend_def)

lemma rep_barrier:
  assumes "\<not> accepts k b"
    and "\<And>acc a. cont acc (a @ b # u) = extend (b # u) (cont acc a)"
  shows "rep k cont acc (a @ b # u) = extend (b # u) (rep k cont acc a)"
proof (induction a arbitrary: acc)
  case Nil
  show ?case using assms(1) assms(2) [of acc "[]"] by simp
next
  case (Cons x a)
  show ?case
  proof (cases "rep k cont (x # acc) a")
    case None
    then show ?thesis using Cons [of "x # acc"] assms(2) [of acc "x # a"] by simp
  next
    case (Some f)
    then show ?thesis using Cons [of "x # acc"] assms(2) [of acc "x # a"]
      by (cases f) simp
  qed
qed

lemma blocked_None:
  "blocked p (first_char u) \<Longrightarrow> match_here p prev acc mk u = None"
  by (induction p "first_char u" rule: blocked.induct)
     (cases u; simp add: first_char_def)+

lemma match_barrier:
  "stops p b (first_char u) \<Longrightarrow>
   match_here p prev acc mk (a @ b # u) = extend (b # u) (match_here p prev acc mk a)"
proof (induction p arbitrary: acc mk a)
  case Nil
  show ?case by simp
next
  case (Cons n p)
  show ?case
  proof (cases n)
    case (Lit c)
    with Cons.prems have st: "stops p b (first_char u)" and bl: "c = b \<Longrightarrow> blocked p (first_char u)"
      by auto
    show ?thesis
    proof (cases a)
      case Nil
      with Lit bl show ?thesis by (auto simp: blocked_None)
    next
      case (Cons x a')
      with Lit Cons.IH [OF st] show ?thesis by simp
    qed
  next
    case (One k)
    with Cons.prems have st: "stops p b (first_char u)" and na: "\<not> accepts k b" by auto
    show ?thesis using One na Cons.IH [OF st] by (cases a) simp_all
  next
    case (Plus k)
    with Cons.prems have st: "stops p b (first_char u)" and na: "\<not> accepts k b" by auto
    show ?thesis
    proof (cases a)
      case Nil
      with Plus na show ?thesis by simp
    next
      case (Cons x a')
      have "rep k (\<lambda>a t. match_here p prev a mk t) (x # acc) (a' @ b # u) =
            extend (b # u) (rep k (\<lambda>a t. match_here p prev a mk t) (x # acc) a')"
        by (rule rep_barrier [OF na]) (rule Cons.IH [OF st])
      with Plus Cons show ?thesis by simp
    qed
  next
    case (Star k)
    with Cons.prems have st: "stops p b (first_char u)" and na: "\<not> accepts k b" by auto
    have "rep k (\<lambda>a t. match_here p prev a mk t) acc (a @ b # u) =
          extend (b # u) (rep k (\<lambda>a t. match_here p prev a mk t) acc a)"
      by (rule rep_barrier [OF na]) (rule Cons.IH [OF st])
    with Star show ?thesis by simp
  next
    case (Opt k)
    with Cons.prems have st: "stops p b (first_char u)" and na: "\<not> accepts k b" by auto
    show ?thesis
    proof (cases a)
      case Nil
      with Opt na Cons.IH [OF st, of acc mk "[]"] show ?thesis by simp
    next
      case (Cons x a')
      with Opt Cons.IH [OF st, of "x # acc" mk a'] Cons.IH [OF st, of acc mk "x # a'"]
      show ?thesis by (cases "match_here p prev (x # acc) mk a'") auto
    qed
  next
    case WordB
    with Cons.prems show ?thesis by simp
  next
    case (Mark i)
    with Cons.prems Cons.IH show ?thesis by simp
  qed
qed

lemma sub_prev:
  assumes "WordB \<notin> set p"
  shows "sub_from p r prev s = sub_from p r prev' s"
proof (induction s arbitrary: prev prev' rule: length_induct)
  case (1 s)
  have m: "match_here p prev [] [] s = match_here p prev' [] [] s"
    by (rule match_prev [OF assms])
  show ?case
  proof (cases "match_here p prev' [] [] s")
    case None
    with m 1 show ?thesis
      by (subst (1 2) sub_from.simps) (auto split: list.splits)
  next
    case (Some f)
    obtain acc mk rest where f: "f = (acc, mk, rest)" by (cases f)
    have a: "length rest < length s \<Longrightarrow>
        sub_from p r (last_char prev acc) rest = sub_from p r (last_char prev' acc) rest"
      using 1 by blast
    show ?thesis
      using m Some f a by (subst (1 2) sub_from.simps) (auto split: list.splits)
  qed
qed

lemma sub_barrier:
  assumes st: "stops p b (first_char u)" and tc: "list_ex takes_char p"
  shows "sub_from p r prev (a @ b # u) = sub_from p r prev a @ sub_from p r prev' (b # u)"
proof (induction a arbitrary: prev rule: length_induct)
  case (1 a)
  have wb: "WordB \<notin> set p" using st by (induction p) (auto elim: stops.elims)
  have m: "match_here p prev [] [] (a @ b # u) = extend (b # u) (match_here p prev [] [] a)"
    by (rule match_barrier [OF st])
  show ?case
  proof (cases "match_here p prev [] [] a")
    case None
    show ?thesis
    proof (cases a)
      case Nil
      then show ?thesis using None match_length_less [OF tc, of prev "[]" "[]" "[]"]
        by (simp add: sub_from_Nil sub_prev [OF wb, of r prev "b # u" prev'])
    next
      case (Cons c cs)
      then show ?thesis using None m 1 by (simp add: sub_from_Cons)
    qed
  next
    case (Some f)
    obtain acc mk rest where f: "f = (acc, mk, rest)" by (cases f)
    with Some have lt: "length rest < length a" using match_length_less [OF tc] by blast
    then obtain c cs where a: "a = c # cs" by (cases a) auto
    have "sub_from p r (last_char prev acc) (rest @ b # u) =
          sub_from p r (last_char prev acc) rest @ sub_from p r prev' (b # u)"
      using 1 lt by blast
    then show ?thesis using Some f m lt a by (simp add: sub_from_Cons)
  qed
qed

lemma ends_in_tail: "ends_in (n # p) z \<Longrightarrow> p \<noteq> [] \<Longrightarrow> ends_in p z"
  by (simp add: ends_in_def)

lemma ends_in_single: "ends_in [n] z \<Longrightarrow> n = Lit z"
  by (simp add: ends_in_def)

lemma ends_in_not_wordb: "ends_in p z \<Longrightarrow> WordB \<notin> set p"
  by (simp add: ends_in_def)

lemma ends_in_takes_char: "ends_in p z \<Longrightarrow> list_ex takes_char p"
proof -
  assume "ends_in p z"
  then have "p \<noteq> []" "last p = Lit z" by (simp_all add: ends_in_def)
  then have "Lit z \<in> set p" using last_in_set by metis
  moreover have "takes_char (Lit z)" by simp
  ultimately show ?thesis unfolding list_ex_iff by blast
qed

lemma rep_dead:
  assumes "\<And>a t. z \<notin> set t \<Longrightarrow> cont a t = None"
  shows "z \<notin> set u \<Longrightarrow> rep k cont acc u = None"
  by (induction u arbitrary: acc) (simp_all add: assms)

lemma match_dead:
  "ends_in p z \<Longrightarrow> z \<notin> set u \<Longrightarrow> match_here p prev acc mk u = None"
proof (induction p arbitrary: acc mk u)
  case Nil
  then show ?case by (simp add: ends_in_def)
next
  case (Cons n p)
  show ?case
  proof (cases "p = []")
    case True
    with Cons.prems(1) have "n = Lit z" by (simp add: ends_in_single)
    with Cons.prems(2) show ?thesis by (cases u) auto
  next
    case False
    with Cons.prems(1) have e: "ends_in p z" by (rule ends_in_tail)
    note ih = Cons.IH [OF e]
    from Cons.prems(1) have nb: "n \<noteq> WordB" by (auto simp: ends_in_def)
    show ?thesis
    proof (cases n)
      case (Plus k)
      then show ?thesis using Cons.prems(2) ih by (cases u) (simp_all add: rep_dead [of z])
    next
      case (Star k)
      then show ?thesis using Cons.prems(2) ih by (simp add: rep_dead [of z])
    next
      case WordB
      with nb show ?thesis by simp
    qed (use Cons.prems(2) ih in \<open>cases u; simp\<close>)+
  qed
qed

lemma rep_tail:
  assumes dead: "\<And>a t. z \<notin> set t \<Longrightarrow> cont a t = None"
    and ext: "\<And>acc a. cont acc (a @ u) = extend u (cont acc a)"
    and u: "z \<notin> set u"
  shows "rep k cont acc (a @ u) = extend u (rep k cont acc a)"
proof (induction a arbitrary: acc)
  case Nil
  have "rep k cont acc u = None" by (rule rep_dead [OF dead u])
  moreover have "cont acc [] = None" using dead [of "[]" acc] by simp
  ultimately show ?case by simp
next
  case (Cons x a)
  show ?case
  proof (cases "rep k cont (x # acc) a")
    case None
    then show ?thesis using Cons [of "x # acc"] ext [of acc "x # a"] by simp
  next
    case (Some f)
    then show ?thesis using Cons [of "x # acc"] ext [of acc "x # a"] by (cases f) simp
  qed
qed

lemma match_tail:
  "ends_in p z \<Longrightarrow> z \<notin> set u \<Longrightarrow>
   match_here p prev acc mk (a @ u) = extend u (match_here p prev acc mk a)"
proof (induction p arbitrary: acc mk a)
  case Nil
  then show ?case by (simp add: ends_in_def)
next
  case (Cons n p)
  note u = Cons.prems(2)
  show ?case
  proof (cases a)
    case Nil
    then show ?thesis
      using match_dead [OF Cons.prems(1) u] match_dead [OF Cons.prems(1), of "[]"] by simp
  next
    case a: (Cons x a')
    show ?thesis
    proof (cases "p = []")
      case True
      with Cons.prems(1) have "n = Lit z" by (simp add: ends_in_single)
      with True a show ?thesis by simp
    next
      case False
      with Cons.prems(1) have e: "ends_in p z" by (rule ends_in_tail)
      note ih = Cons.IH [OF e u]
      from Cons.prems(1) have nb: "n \<noteq> WordB" by (auto simp: ends_in_def)
      have r: "\<And>k acc a. rep k (\<lambda>a t. match_here p prev a mk t) acc (a @ u) =
                  extend u (rep k (\<lambda>a t. match_here p prev a mk t) acc a)"
        by (rule rep_tail [of z]) (simp_all add: match_dead [OF e] ih u)
      show ?thesis
      proof (cases n)
        case (Plus k)
        then show ?thesis using a r by simp
      next
        case (Star k)
        then show ?thesis using r [of k acc a] by simp
      next
        case (Opt k)
        then show ?thesis using a ih [of "x # acc" mk a'] ih [of acc mk "x # a'"]
          by (cases "match_here p prev (x # acc) mk a'") auto
      next
        case WordB
        with nb show ?thesis by simp
      next
        case (Mark i)
        then show ?thesis using ih [of acc "(i, length acc) # mk" a] by simp
      qed (use a ih in simp_all)
    qed
  qed
qed

lemma search_dead:
  "ends_in p z \<Longrightarrow> z \<notin> set u \<Longrightarrow> search_from p prev u = None"
  by (induction u arbitrary: prev)
     (simp_all add: search_from_Nil search_from_Cons match_dead)

lemma sub_tail:
  assumes e: "ends_in p z" and u: "z \<notin> set u"
  shows "sub_from p r prev (a @ u) = sub_from p r prev a @ u"
proof (induction a arbitrary: prev rule: length_induct)
  case (1 a)
  note tc = ends_in_takes_char [OF e]
  have m: "match_here p prev [] [] (a @ u) = extend u (match_here p prev [] [] a)"
    by (rule match_tail [OF e u])
  show ?case
  proof (cases "match_here p prev [] [] a")
    case None
    show ?thesis
    proof (cases a)
      case Nil
      then show ?thesis using None
        by (simp add: sub_from_Nil search_none_sub [OF search_dead [OF e u]])
    next
      case (Cons c cs)
      then show ?thesis using None m 1 by (simp add: sub_from_Cons)
    qed
  next
    case (Some f)
    obtain acc mk rest where f: "f = (acc, mk, rest)" by (cases f)
    with Some have lt: "length rest < length a" using match_length_less [OF tc] by blast
    then obtain c cs where a: "a = c # cs" by (cases a) auto
    have "sub_from p r (last_char prev acc) (rest @ u) =
          sub_from p r (last_char prev acc) rest @ u"
      using 1 lt by blast
    then show ?thesis using Some f m lt a by (simp add: sub_from_Cons)
  qed
qed

lemma search_append:
  assumes "WordB \<notin> set p" and "match_here p prev' [] [] s \<noteq> None"
  shows "search_from p prev (x @ s) \<noteq> None"
proof (induction x arbitrary: prev)
  case Nil
  have "match_here p prev [] [] s \<noteq> None"
    using assms(2) match_prev [OF assms(1), of prev "[]" "[]" s prev'] by simp
  then show ?case by (cases s) (auto simp: search_from_Nil search_from_Cons)
next
  case (Cons c x)
  then show ?case by (simp add: search_from_Cons split: option.splits)
qed

lemma finditer_search:
  "finditer_from p prev pos s = [] \<longleftrightarrow> search_from p prev s = None"
proof (induction s arbitrary: prev pos)
  case Nil
  show ?case by (simp add: finditer_from_Nil search_from_Nil split: option.splits)
next
  case (Cons c cs)
  then show ?case by (simp add: finditer_from_Cons search_from_Cons split: option.splits)
qed

lemmas eval_defs =
  re_sub_def re_search_def re_finditer_def sub_from_Cons sub_from_Nil search_from_Cons
  search_from_Nil finditer_from_Cons finditer_from_Nil lits_def const_repl_def template_def
  group_def last_char_def quotes_def

lemmas step_defs = sub_from_Cons lits_def const_repl_def last_char_def is_word_def is_space_def
  Let_def

lemma sub_rewrite:
  assumes st: "stops p b (first_char (k2 @ t))"
    and e: "ends_in p z" and k1: "z \<notin> set k1"
    and comp: "sub_from p r None (b # k2 @ t) = k3 @ sub_from p r prev' t"
  shows "sub_from p r None (a @ k1 @ b # k2 @ t) =
         sub_from p r None a @ k1 @ k3 @ sub_from p r None t"
proof -
  have "sub_from p r None ((a @ k1) @ b # (k2 @ t)) =
        sub_from p r None (a @ k1) @ sub_from p r None (b # (k2 @ t))"
    by (rule sub_barrier [OF st ends_in_takes_char [OF e]])
  moreover have "sub_from p r None (a @ k1) = sub_from p r None a @ k1"
    by (rule sub_tail [OF e k1])
  moreover have "sub_from p r prev' t = sub_from p r None t"
    by (rule sub_prev [OF ends_in_not_wordb [OF e]])
  ultimately show ?thesis using comp by simp
qed

lemma sub_rewrite_at:
  assumes j: "j < length blk"
    and st: "stops p (blk ! j) (first_char (drop (Suc j) blk @ t))"
    and e: "ends_in p z" and k1: "z \<notin> set (take j blk)"
    and same: "take j blk' = take j blk"
    and comp: "sub_from p r None (drop j blk @ t) = drop j blk' @ sub_from p r prev' t"
  shows "re_sub p r (a @ blk @ t) = re_sub p r a @ blk' @ re_sub p r t"
proof -
  have b: "blk = take j blk @ blk ! j # drop (Suc j) blk"
    using j by (rule id_take_nth_drop)
  have d: "drop j blk = blk ! j # drop (Suc j) blk"
    using j by (simp add: Cons_nth_drop_Suc)
  have c: "sub_from p r None (blk ! j # drop (Suc j) blk @ t) =
           drop j blk' @ sub_from p r prev' t"
    using comp d by simp
  have "sub_from p r None (a @ take j blk @ blk ! j # drop (Suc j) blk @ t) =
        sub_from p r None a @ take j blk @ drop j blk' @ sub_from p r None t"
    using st e k1 c by (rule sub_rewrite)
  moreover have "take j blk @ drop j blk' = blk'"
    using same append_take_drop_id [of j blk'] by simp
  ultimately show ?thesis using b unfolding re_sub_def
    by (metis append.assoc append_Cons)
qed

lemma sub_fires:
  "search_from p prev s \<noteq> None \<Longrightarrow>
   \<exists>pre post. sub_from p (const_repl b) prev s = pre @ b @ post"
proof (induction s arbitrary: prev)
  case Nil
  then show ?case
    by (auto simp: search_from_Nil sub_from_Nil const_repl_def intro: exI [of _ "[]"])
next
  case (Cons c cs)
  show ?case
  proof (cases "match_here p prev [] [] (c # cs)")
    case None
    with Cons.prems have "search_from p (Some c) cs \<noteq> None" by (simp add: search_from_Cons)
    from Cons.IH [OF this] obtain pre post where
      "sub_from p (const_repl b) (Some c) cs = pre @ b @ post" by blast
    with None have "sub_from p (const_repl b) prev (c # cs) = (c # pre) @ b @ post"
      by (simp add: sub_from_Cons)
    then show ?thesis by blast
  next
    case (Some f)
    obtain acc mk rest where "f = (acc, mk, rest)" by (cases f)
    with Some have "\<exists>post. sub_from p (const_repl b) prev (c # cs) = [] @ b @ post"
      by (simp add: sub_from_Cons const_repl_def)
    then show ?thesis by blast
  qed
qed

lemma fold_substitute:
  "fold (\<lambda>(pattern, replacement) content. re_sub pattern (const_repl replacement) content) xs c =
   fold apply_rule (map (\<lambda>(pattern, replacement). Substitute pattern (const_repl replacement)) xs) c"
  by (induction xs arbitrary: c) (auto)

lemma transform_rules: "transform s c = apply_rules (rules s) c"
  by (cases s)
     (simp_all add: apply_rules_def graphql_transform_def complete_transform_def
        final_transform_def vault_transform_def mocks_transform_def results_transform_def
        fold_substitute)

lemma apply_rule_no_match:
  "re_search (pattern_of r) c = None \<Longrightarrow> apply_rule r c = c"
  by (cases r)
     (simp_all add: re_search_def re_sub_def search_none_sub add_imports_def re_finditer_def
        search_none_finditer)

lemma apply_rules_no_match:
  "\<forall>r\<in>set rs. re_search (pattern_of r) c = None \<Longrightarrow> apply_rules rs c = c"
  by (induction rs) (simp_all add: apply_rules_def apply_rule_no_match)

text \<open>Every pattern of every script consumes at least one character when it matches.\<close>

lemma patterns_take_char:
  "r \<in> set (rules s) \<Longrightarrow> list_ex takes_char (pattern_of r)"
  by (cases s)
     (auto simp: lits_def graphql_pattern_def import_pattern_def simulation_result_pattern_def
        complete_state_pattern_def complete_cast_pattern_def complete_mock_pattern_def
        complete_request_pattern_def final_type_pattern_def patterns_to_fix_def
        final_mock_pattern_def final_vault_pattern_def final_state_pattern_def
        vault_pattern_def fees_pattern_def json_pattern_def mocks_pattern_def
        simulation_patterns_def any_data_pattern_def)

lemma matches_are_not_empty:
  assumes "r \<in> set (rules s)"
    and "match_here (pattern_of r) prev [] [] t = Some (acc, mk, rest)"
  shows "length rest < length t"
  using match_length_less [OF patterns_take_char [OF assms(1)] assms(2)] .

section \<open>The runs\<close>


lemmas script_defs =
  fix_graphql_mocks_def fix_simulate_vault_complete_def fix_simulate_vault_final_def
  fix_simulate_vault_test_def fix_all_simulation_mocks_def fix_simulation_results_def
  main_def exit_with_def traceback_def

lemma read_text_print [simp]: "read_text (print l w) c p = read_text w c p"
  by (simp add: read_text_def print_def)

lemma write_text_print [simp]:
  "write_text (print l w) c p t =
     (fst (write_text w c p t), print l (snd (write_text w c p t)))"
  by (simp add: write_text_def print_def split: mode.splits option.splits)

lemma print_fields [simp]:
  "files (print l w) = files w"
  "stdout (print l w) = stdout w @ [l]"
  by (simp_all add: print_def)

lemma write_text_stdout [simp]: "stdout (snd (write_text w c p t)) = stdout w"
  by (simp add: write_text_def split: mode.splits option.splits)

lemma run_read_fails:
  assumes "read_text w (codec_of s w) (target s) = Inl e"
  shows "status (run s w) = 1"
    and "files (final (run s w)) = files w"
    and "uncaught (run s w) = (if s = GraphqlMocks then Some e else None)"
    and "stdout (final (run s w)) =
           (if s = GraphqlMocks then stdout w else stdout w @ [Failed (target s) e])"
  using assms by (cases s; simp add: script_defs)+

lemma write_text_succeeds:
  assumes "mode w p = Writable" and "encode c (platform_newlines (linesep w) t) = Some b"
  shows "write_text w c p t = (None, w\<lparr>files := (files w)(p := Bytes b)\<rparr>)"
  using assms by (simp add: write_text_def)

lemma failure_cases:
  assumes "failure s w = Some e"
  obtains "read_text w (codec_of s w) (target s) = Inl e"
  | content w' where "read_text w (codec_of s w) (target s) = Inr content"
      and "write_text w (codec_of s w) (target s) (transform s content) = (Some e, w')"
proof (cases "read_text w (codec_of s w) (target s)")
  case (Inl e')
  with assms have "e' = e" by (simp add: failure_def)
  with Inl that(1) show ?thesis by simp
next
  case (Inr content)
  with assms have "fst (write_text w (codec_of s w) (target s) (transform s content)) = Some e"
    by (simp add: failure_def)
  then have "write_text w (codec_of s w) (target s) (transform s content) =
      (Some e, snd (write_text w (codec_of s w) (target s) (transform s content)))"
    by (metis prod.collapse)
  with Inr that(2) show ?thesis by blast
qed

lemma failure_none:
  assumes "failure s w = None"
  obtains content w' where "read_text w (codec_of s w) (target s) = Inr content"
    and "write_text w (codec_of s w) (target s) (transform s content) = (None, w')"
proof (cases "read_text w (codec_of s w) (target s)")
  case (Inl e')
  with assms show ?thesis by (simp add: failure_def)
next
  case (Inr content)
  with assms have "fst (write_text w (codec_of s w) (target s) (transform s content)) = None"
    by (simp add: failure_def)
  then have "write_text w (codec_of s w) (target s) (transform s content) =
      (None, snd (write_text w (codec_of s w) (target s) (transform s content)))"
    by (metis prod.collapse)
  with Inr that show ?thesis by blast
qed

lemma failure_no_files: "failure s no_files = Some FileNotFoundError"
  by (simp add: failure_def read_text_def no_files_def)



lemma run_written:
  assumes "read_text w (codec_of s w) (target s) = Inr content"
    and "write_text w (codec_of s w) (target s) (transform s content) = (r, w')"
  shows "status (run s w) = (if r = None then 0 else 1)"
    and "files (final (run s w)) = files w'"
    and "uncaught (run s w) = (if s = GraphqlMocks then r else None)"
    and "s \<noteq> GraphqlMocks \<Longrightarrow>
           last (stdout (final (run s w))) =
             (case r of None \<Rightarrow> Updated (target s) | Some e \<Rightarrow> Failed (target s) e)"
    and "s = GraphqlMocks \<Longrightarrow> r \<noteq> None \<Longrightarrow> stdout (final (run s w)) = stdout w"
proof -
  have sw: "stdout w' = stdout w"
    using write_text_stdout [of w "codec_of s w" "target s" "transform s content"] assms(2)
    by simp
  have a: "status (run s w) = (if r = None then 0 else 1) \<and>
        files (final (run s w)) = files w' \<and>
        uncaught (run s w) = (if s = GraphqlMocks then r else None) \<and>
        (s \<noteq> GraphqlMocks \<longrightarrow>
           last (stdout (final (run s w))) =
             (case r of None \<Rightarrow> Updated (target s) | Some e \<Rightarrow> Failed (target s) e)) \<and>
        (s = GraphqlMocks \<longrightarrow> r \<noteq> None \<longrightarrow> stdout (final (run s w)) = stdout w)"
  proof (cases r)
    case None
    with assms sw show ?thesis by (cases s) (simp_all add: script_defs Let_def)
  next
    case (Some e)
    with assms sw show ?thesis by (cases s) (simp_all add: script_defs Let_def)
  qed
  from a show "status (run s w) = (if r = None then 0 else 1)" by simp
  from a show "files (final (run s w)) = files w'" by simp
  from a show "uncaught (run s w) = (if s = GraphqlMocks then r else None)" by simp
  from a show "s \<noteq> GraphqlMocks \<Longrightarrow>
           last (stdout (final (run s w))) =
             (case r of None \<Rightarrow> Updated (target s) | Some e \<Rightarrow> Failed (target s) e)" by simp
  from a show "s = GraphqlMocks \<Longrightarrow> r \<noteq> None \<Longrightarrow> stdout (final (run s w)) = stdout w" by simp
qed



lemma universal_newlines_id: "CR \<notin> set t \<Longrightarrow> universal_newlines t = t"
  by (induction t rule: universal_newlines.induct) auto

lemma platform_newlines_LF: "platform_newlines [LF] t = t"
  by (induction t) (simp_all add: platform_newlines_def)

lemma two_bytes:
  fixes n m :: nat
  assumes "n = 194 \<or> n = 195" and "128 \<le> m" and "m < 192"
  shows "(n - 192) * 64 + (m - 128) < 256"
    and "128 \<le> (n - 192) * 64 + (m - 128)"
    and "192 + ((n - 192) * 64 + (m - 128)) div 64 = n"
    and "128 + ((n - 192) * 64 + (m - 128)) mod 64 = m"
proof -
  from assms(2) obtain k where m: "m = 128 + k" using le_Suc_ex by blast
  with assms(3) have k: "k < 64" by simp
  show "(n - 192) * 64 + (m - 128) < 256" using assms(1) m k by auto
  show "128 \<le> (n - 192) * 64 + (m - 128)" using assms(1) m k by auto
  show "192 + ((n - 192) * 64 + (m - 128)) div 64 = n" using assms(1) m k by auto
  show "128 + ((n - 192) * 64 + (m - 128)) mod 64 = m" using assms(1) m k by auto
qed

lemma utf8_decode_encode: "utf8_decode b = Some t \<Longrightarrow> utf8_encode t = b"
proof (induction b arbitrary: t rule: utf8_decode.induct)
  case 1
  then show ?case by simp
next
  case (2 b)
  then show ?case by (auto split: if_splits)
next
  case (3 b b2 bs)
  show ?case
  proof (cases "(of_char b :: nat) < 128")
    case True
    with 3 show ?thesis by auto
  next
    case False
    let ?n = "of_char b :: nat" and ?m = "of_char b2 :: nat"
    from False 3(3) have c: "?n = 194 \<or> ?n = 195" "128 \<le> ?m" "?m < 192"
      by (auto split: if_splits)
    from False c 3(3) obtain t' where t': "utf8_decode bs = Some t'"
      and t: "t = char_of ((?n - 192) * 64 + (?m - 128)) # t'"
      by (auto split: if_splits)
    have e: "utf8_encode t' = bs" using 3(2) False c t' by simp
    define cp where "cp = (?n - 192) * 64 + (?m - 128)"
    have cp: "cp < 256" "128 \<le> cp" "192 + cp div 64 = ?n" "128 + cp mod 64 = ?m"
      unfolding cp_def using two_bytes [OF c] by simp_all
    have o: "(of_char (char_of cp :: char) :: nat) = cp" using cp(1) by simp
    have b: "char_of (192 + cp div 64) = b" "char_of (128 + cp mod 64) = b2"
      using cp(3,4) by simp_all
    have "utf8_encode (char_of cp # t') = b # b2 # bs"
      using e cp(2) by (simp only: utf8_encode.simps o b) simp
    then show ?thesis unfolding t cp_def .
  qed
qed

lemma decode_encode: "decode c b = Some t \<Longrightarrow> encode c t = Some b"
  by (cases c) (auto simp: utf8_decode_encode split: if_splits)

lemma utf8_decode_CR: "utf8_decode b = Some t \<Longrightarrow> CR \<notin> set b \<Longrightarrow> CR \<notin> set t"
proof (induction b arbitrary: t rule: utf8_decode.induct)
  case 1
  then show ?case by simp
next
  case (2 b)
  then show ?case by (auto split: if_splits)
next
  case (3 b b2 bs)
  show ?case
  proof (cases "(of_char b :: nat) < 128")
    case True
    with 3 show ?thesis by auto
  next
    case False
    let ?n = "of_char b :: nat" and ?m = "of_char b2 :: nat"
    from False 3(3) have c: "?n = 194 \<or> ?n = 195" "128 \<le> ?m" "?m < 192"
      by (auto split: if_splits)
    from False c 3(3) obtain t' where t': "utf8_decode bs = Some t'"
      and t: "t = char_of ((?n - 192) * 64 + (?m - 128)) # t'"
      by (auto split: if_splits)
    have "CR \<notin> set t'" using 3(2) False c t' 3(4) by simp
    moreover have "char_of ((?n - 192) * 64 + (?m - 128)) \<noteq> CR"
    proof
      define cp where "cp = (?n - 192) * 64 + (?m - 128)"
      have cp: "cp < 256" "128 \<le> cp" unfolding cp_def using two_bytes(1,2) [OF c] by simp_all
      assume "char_of ((?n - 192) * 64 + (?m - 128)) = CR"
      then have "char_of cp = CR" by (simp only: cp_def)
      then have "(of_char (char_of cp :: char) :: nat) = of_char CR" by simp
      then have "cp = 13" using cp(1) by (simp add: CR_def)
      with cp(2) show False by simp
    qed
    ultimately show ?thesis unfolding t by simp
  qed
qed

lemma decode_CR: "decode c b = Some t \<Longrightarrow> CR \<notin> set b \<Longrightarrow> CR \<notin> set t"
  by (cases c) (auto simp: utf8_decode_CR split: if_splits)


section \<open>Failure handling and exit status\<close>

text \<open>
  C1, as stated, fails: fix-graphql-mocks.py has no handler.  When its target is missing the
  exception leaves the program uncaught and the script prints nothing.
\<close>

theorem graphql_uncaught:
  "uncaught (run GraphqlMocks no_files) = Some FileNotFoundError \<and>
   stdout (final (run GraphqlMocks no_files)) = []"
  by (simp add: script_defs read_text_def no_files_def)

text \<open>
  C1, amended: in each of the five scripts that define a function, every failure of reading
  or writing the target is caught, the failure line is the last thing printed, and the exit
  status is 1.  In fix-graphql-mocks.py the same failure is not caught: it ends the run
  as an uncaught exception, with nothing printed by the script, and the status is 1 as well.
\<close>

theorem caught_unless_graphql:
  assumes "failure s w = Some e"
  shows "status (run s w) = 1 \<and>
         (s \<noteq> GraphqlMocks \<longrightarrow>
            uncaught (run s w) = None \<and>
            last (stdout (final (run s w))) = Failed (target s) e) \<and>
         (s = GraphqlMocks \<longrightarrow>
            uncaught (run s w) = Some e \<and> stdout (final (run s w)) = stdout w)"
  using assms
proof (cases rule: failure_cases)
  case 1
  then show ?thesis using run_read_fails [of w s e] by auto
next
  case (2 content w')
  then show ?thesis using run_written [of w s content "Some e" w'] by auto
qed

theorem caught_unless_graphql_witness:
  "failure SimulateFinal no_files = Some FileNotFoundError \<and>
   status (run SimulateFinal no_files) = 1 \<and>
   uncaught (run SimulateFinal no_files) = None \<and>
   last (stdout (final (run SimulateFinal no_files))) =
     Failed simulate_vault_path FileNotFoundError"
  using caught_unless_graphql [of SimulateFinal no_files FileNotFoundError]
  by (simp add: failure_no_files)

text \<open>
  C4: every script exits with status 0 when reading and writing succeed and with status 1
  when one of them fails; when the target path does not exist the status is 1 and the file
  store is left as it was, so no file is created or written.
\<close>

theorem exit_status:
  "status (run s w) = (if failure s w = None then 0 else 1) \<and>
   (files w (target s) = Missing \<longrightarrow>
      status (run s w) = 1 \<and> files (final (run s w)) = files w)"
proof -
  have a: "status (run s w) = (if failure s w = None then 0 else 1)"
  proof (cases "failure s w")
    case None
    then show ?thesis
    proof (cases rule: failure_none)
      case (1 content w')
      then show ?thesis using None run_written(1) [of w s content None w'] by simp
    qed
  next
    case (Some e)
    then show ?thesis
    proof (cases rule: failure_cases)
      case 1
      then show ?thesis using Some run_read_fails(1) [of w s e] by simp
    next
      case (2 content w')
      then show ?thesis using Some run_written(1) [of w s content "Some e" w'] by simp
    qed
  qed
  have b: "files w (target s) = Missing \<Longrightarrow>
      status (run s w) = 1 \<and> files (final (run s w)) = files w"
    using run_read_fails(1,2) [of w s FileNotFoundError] by (simp add: read_text_def)
  from a b show ?thesis by blast
qed

theorem exit_status_witness:
  "files no_files (target SimulateVault) = Missing \<and>
   status (run SimulateVault no_files) = 1 \<and>
   files (final (run SimulateVault no_files)) = files no_files"
  using exit_status [of SimulateVault no_files] by (simp add: no_files_def)

section \<open>What a run does to the file\<close>

lemma read_bytes:
  "files w p = Bytes b \<Longrightarrow> decode c b = Some t \<Longrightarrow> read_text w c p = Inr (universal_newlines t)"
  by (simp add: read_text_def)

lemma run_unchanged:
  assumes f: "files w (target s) = Bytes b" and d: "decode (codec_of s w) b = Some t"
    and same: "transform s (universal_newlines t) = universal_newlines t"
    and m: "mode w (target s) = Writable" and l: "linesep w = [LF]" and cr: "CR \<notin> set b"
  shows "files (final (run s w)) = files w \<and> status (run s w) = 0 \<and> uncaught (run s w) = None"
proof -
  have u: "universal_newlines t = t"
    using decode_CR [OF d cr] by (rule universal_newlines_id)
  from same u have "transform s t = t" by simp
  then have "encode (codec_of s w) (platform_newlines (linesep w) (transform s (universal_newlines t))) =
      Some b"
    using decode_encode [OF d] by (simp add: u l platform_newlines_LF)
  from write_text_succeeds [OF m this]
  have "write_text w (codec_of s w) (target s) (transform s (universal_newlines t)) =
      (None, w\<lparr>files := (files w)((target s) := Bytes b)\<rparr>)" .
  from run_written(1,2,3) [OF read_bytes [OF f d] this] f show ?thesis
    by (simp add: fun_upd_idem)
qed

text \<open>
  C2, as stated, fails: the scripts open their target in text mode, so a file with CR LF
  line ends comes back with LF line ends although no pattern matches in it.
\<close>

theorem crlf_file_rewritten:
  "read_text (one_file simulate_vault_path (''const x = 1;'' @ [CR, LF])) Utf8 simulate_vault_path =
     Inr ''const x = 1;\<newline>'' \<and>
   re_search mocks_pattern ''const x = 1;\<newline>'' = None \<and>
   files (final (run SimulationMocks (one_file simulate_vault_path (''const x = 1;'' @ [CR, LF]))))
     simulate_vault_path = Bytes ''const x = 1;\<newline>'' \<and>
   files (final (run SimulationMocks (one_file simulate_vault_path (''const x = 1;'' @ [CR, LF]))))
     simulate_vault_path \<noteq>
   files (one_file simulate_vault_path (''const x = 1;'' @ [CR, LF])) simulate_vault_path"
proof -
  let ?w = "one_file simulate_vault_path (''const x = 1;'' @ [CR, LF])"
  have r: "read_text ?w Utf8 simulate_vault_path = Inr ''const x = 1;\<newline>''"
    by (simp add: read_text_def one_file_def no_files_def CR_def LF_def)
  have n: "re_search mocks_pattern ''const x = 1;\<newline>'' = None"
    by (simp add: eval_defs mocks_pattern_def)
  then have t: "mocks_transform ''const x = 1;\<newline>'' = ''const x = 1;\<newline>''"
    by (simp add: mocks_transform_def re_search_def re_sub_def search_none_sub)
  have "write_text ?w Utf8 simulate_vault_path ''const x = 1;\<newline>'' =
      (None, ?w\<lparr>files := (files ?w)(simulate_vault_path := Bytes ''const x = 1;\<newline>'')\<rparr>)"
    by (rule write_text_succeeds)
       (simp_all add: one_file_def no_files_def platform_newlines_LF)
  with r t have "files (final (run SimulationMocks ?w)) simulate_vault_path =
      Bytes ''const x = 1;\<newline>''"
    using run_written(2) [of ?w SimulationMocks "''const x = 1;\<newline>''" None] by simp
  moreover have "files ?w simulate_vault_path = Bytes (''const x = 1;'' @ [CR, LF])"
    by (simp add: one_file_def)
  ultimately show ?thesis using r n by (simp add: CR_def LF_def)
qed

text \<open>
  C2, amended: when none of the patterns of a script's rules matches anywhere in the text
  read from its target, the script's transformation returns that text as it is (no rule
  fails), and a run that can write the file writes that text back.  The file itself is
  unchanged, and the run ends with status 0, when the file holds no CR and the platform's
  line separator is LF.  A write that fails after the file was opened leaves it empty; when
  the file cannot be opened for writing it stays as it was.
\<close>

theorem no_match_unchanged:
  assumes "files w (target s) = Bytes b" and "decode (codec_of s w) b = Some t"
    and "\<forall>r\<in>set (rules s). re_search (pattern_of r) (universal_newlines t) = None"
  shows "transform s (universal_newlines t) = universal_newlines t \<and>
         (\<forall>b'. mode w (target s) = Writable \<and>
               encode (codec_of s w) (platform_newlines (linesep w) (universal_newlines t)) =
                 Some b' \<longrightarrow>
               files (final (run s w)) = (files w)((target s) := Bytes b') \<and>
               status (run s w) = 0 \<and> uncaught (run s w) = None) \<and>
         (mode w (target s) = Writable \<and> linesep w = [LF] \<and> CR \<notin> set b \<longrightarrow>
            files (final (run s w)) = files w \<and> status (run s w) = 0 \<and>
            uncaught (run s w) = None) \<and>
         (mode w (target s) = NoWrite \<longrightarrow>
            files (final (run s w)) = (files w)((target s) := Bytes []) \<and> status (run s w) = 1) \<and>
         (mode w (target s) = NoOpen \<longrightarrow>
            files (final (run s w)) = files w \<and> status (run s w) = 1)"
proof -
  let ?c = "codec_of s w" and ?p = "target s" and ?u = "universal_newlines t"
  have same: "transform s ?u = ?u"
    using assms(3) by (simp add: transform_rules apply_rules_no_match)
  note rd = read_bytes [OF assms(1,2)]
  have a: "files (final (run s w)) = (files w)(?p := Bytes b') \<and>
           status (run s w) = 0 \<and> uncaught (run s w) = None"
    if "mode w ?p = Writable" "encode ?c (platform_newlines (linesep w) ?u) = Some b'" for b'
  proof -
    from write_text_succeeds [OF that]
    have "write_text w ?c ?p (transform s ?u) = (None, w\<lparr>files := (files w)(?p := Bytes b')\<rparr>)"
      by (simp add: same)
    from run_written(1,2,3) [OF rd this] show ?thesis by simp
  qed
  have c: "files (final (run s w)) = (files w)(?p := Bytes []) \<and> status (run s w) = 1"
    if nw: "mode w ?p = NoWrite"
  proof -
    obtain r where "write_text w ?c ?p (transform s ?u) =
        (Some r, w\<lparr>files := (files w)(?p := Bytes [])\<rparr>)"
      using nw
      by (cases "encode ?c (platform_newlines (linesep w) (transform s ?u))")
         (auto simp: write_text_def)
    from run_written(1,2) [OF rd this] show ?thesis by simp
  qed
  have d: "files (final (run s w)) = files w \<and> status (run s w) = 1"
    if no: "mode w ?p = NoOpen"
  proof -
    have "write_text w ?c ?p (transform s ?u) = (Some OSError, w)"
      using no by (simp add: write_text_def)
    from run_written(1,2) [OF rd this] show ?thesis by simp
  qed
  from same a c d run_unchanged [OF assms(1,2) same] show ?thesis by blast
qed

theorem no_match_unchanged_witness:
  "complete_transform ''const x = 1;'' = ''const x = 1;'' \<and>
   files (final (run SimulateComplete (one_file simulate_vault_path ''const x = 1;''))) =
   files (one_file simulate_vault_path ''const x = 1;'') \<and>
   status (run SimulateComplete (one_file simulate_vault_path ''const x = 1;'')) = 0"
proof -
  let ?w = "one_file simulate_vault_path ''const x = 1;''"
  have f: "files ?w (target SimulateComplete) = Bytes ''const x = 1;''"
    by (simp add: one_file_def)
  have d: "decode (codec_of SimulateComplete ?w) ''const x = 1;'' = Some ''const x = 1;''"
    by simp
  have u: "universal_newlines ''const x = 1;'' = ''const x = 1;''"
    by (simp add: CR_def)
  have "\<forall>r\<in>set (rules SimulateComplete). re_search (pattern_of r) ''const x = 1;'' = None"
    by (simp add: eval_defs import_pattern_def simulation_result_pattern_def
        complete_state_pattern_def complete_cast_pattern_def complete_mock_pattern_def
        complete_request_pattern_def)
  then have "\<forall>r\<in>set (rules SimulateComplete).
      re_search (pattern_of r) (universal_newlines ''const x = 1;'') = None"
    by (simp only: u)
  note r = no_match_unchanged [OF f d this]
  have m: "mode ?w (target SimulateComplete) = Writable \<and> linesep ?w = [LF] \<and>
      CR \<notin> set ''const x = 1;''"
    by (simp add: one_file_def no_files_def CR_def)
  from r have "transform SimulateComplete ''const x = 1;'' = ''const x = 1;''"
    by (simp only: u)
  then have "complete_transform ''const x = 1;'' = ''const x = 1;''"
    by (simp only: transform.simps)
  moreover from r m have "files (final (run SimulateComplete ?w)) = files ?w \<and>
      status (run SimulateComplete ?w) = 0"
    by blast
  ultimately show ?thesis by blast
qed

text \<open>
  C5: a script's transformation is its rules applied one after the other in the listed
  order, and a run that reads and writes its target replaces the content of that one path
  by the result; every other path keeps what it had.
\<close>

theorem sequential_composition:
  assumes "read_text w (codec_of s w) (target s) = Inr content"
    and "mode w (target s) = Writable"
    and "encode (codec_of s w) (platform_newlines (linesep w) (apply_rules (rules s) content)) =
           Some b"
  shows "transform s content = apply_rules (rules s) content \<and>
         files (final (run s w)) = (files w)((target s) := Bytes b) \<and>
         status (run s w) = 0"
proof -
  have t: "transform s content = apply_rules (rules s) content" by (rule transform_rules)
  from write_text_succeeds [OF assms(2,3)]
  have "write_text w (codec_of s w) (target s) (transform s content) =
      (None, w\<lparr>files := (files w)((target s) := Bytes b)\<rparr>)"
    by (simp add: t)
  from run_written(1,2) [OF assms(1) this] t show ?thesis by simp
qed

theorem sequential_composition_witness:
  "files (final (run SimulateFinal (one_file simulate_vault_path ''a: SimulationResult = {''))) =
   (files (one_file simulate_vault_path ''a: SimulationResult = {''))
     (simulate_vault_path := Bytes ''a: LagoonSimulationResult = {'')"
proof -
  let ?w = "one_file simulate_vault_path ''a: SimulationResult = {''"
  have r: "read_text ?w (codec_of SimulateFinal ?w) (target SimulateFinal) =
      Inr ''a: SimulationResult = {''"
    by (simp add: read_text_def one_file_def no_files_def CR_def)
  have m: "mode ?w (target SimulateFinal) = Writable"
    by (simp add: one_file_def no_files_def)
  have a: "apply_rules (rules SimulateFinal) ''a: SimulationResult = {'' =
      ''a: LagoonSimulationResult = {''"
    by (simp add: apply_rules_def eval_defs final_type_pattern_def patterns_to_fix_def
        final_mock_pattern_def final_mock_repl_def final_vault_pattern_def
        final_state_pattern_def)
  have e: "encode (codec_of SimulateFinal ?w)
      (platform_newlines (linesep ?w) (apply_rules (rules SimulateFinal) ''a: SimulationResult = {'')) =
      Some ''a: LagoonSimulationResult = {''"
    unfolding a by (simp add: one_file_def no_files_def platform_newlines_LF)
  from sequential_composition [OF r m e] show ?thesis by simp
qed

text \<open>
  C10, as stated, fails: what a script writes depends on the environment.
  fix-graphql-mocks.py opens its target without an encoding: for the same bytes a UTF-8
  locale reads a letter before the name and leaves the file as it is, a Latin-1 locale reads
  a sign there and replaces the name.  And every script writes LF as the line separator of
  the platform.
\<close>

theorem output_depends_on_environment:
  "files (final (run GraphqlMocks
      (one_file price_history_path ([CHR 0xC3, CHR 0xA9] @ ''graphqlClient.request.mock''))))
     price_history_path =
     Bytes ([CHR 0xC3, CHR 0xA9] @ ''graphqlClient.request.mock'') \<and>
   files (final (run GraphqlMocks
      ((one_file price_history_path ([CHR 0xC3, CHR 0xA9] @ ''graphqlClient.request.mock''))
         \<lparr>locale_encoding := Latin1\<rparr>)))
     price_history_path =
     Bytes ([CHR 0xC3, CHR 0xA9] @ ''vi.mocked(graphqlClient).request.mock'') \<and>
   files (final (run SimulationMocks (one_file simulate_vault_path ''a\<newline>'')))
     simulate_vault_path = Bytes ''a\<newline>'' \<and>
   files (final (run SimulationMocks
      ((one_file simulate_vault_path ''a\<newline>'')\<lparr>linesep := [CR, LF]\<rparr>)))
     simulate_vault_path = Bytes (''a'' @ [CR, LF])"
  by (simp add: script_defs Let_def read_text_def write_text_def print_def one_file_def
      no_files_def platform_newlines_def CR_def LF_def graphql_transform_def
      mocks_transform_def mocks_pattern_def graphql_pattern_def eval_defs at_boundary_def
      is_word_def char_of_def bit_Suc_0_iff)

text \<open>
  C10, amended: what a script writes is a function of the bytes of its target, of the
  platform's line separator and, for fix-graphql-mocks.py only, of the locale's codec.  Two
  runs of one script that get to the end, on the same bytes, with the same line separator
  and, for fix-graphql-mocks.py, the same locale, write the same bytes, whatever else the
  two worlds hold (other files, earlier output); for the five scripts that name utf-8 the
  locale does not matter.
\<close>

theorem deterministic:
  assumes "files w1 (target s) = Bytes b" and "files w2 (target s) = Bytes b"
    and "failure s w1 = None" and "failure s w2 = None"
    and "linesep w1 = linesep w2"
    and "s = GraphqlMocks \<longrightarrow> locale_encoding w1 = locale_encoding w2"
  shows "files (final (run s w2)) (target s) = files (final (run s w1)) (target s) \<and>
         map_option Bytes (rewritten s (codec_of s w1) (linesep w1) b) =
           Some (files (final (run s w1)) (target s))"
proof -
  have written: "map_option Bytes (rewritten s (codec_of s w) (linesep w) b) =
      Some (files (final (run s w)) (target s))"
    if f: "files w (target s) = Bytes b" and ok: "failure s w = None" for w
    using ok
  proof (cases rule: failure_none)
    case (1 content w')
    from 1(1) f obtain t where d: "decode (codec_of s w) b = Some t"
      and c: "content = universal_newlines t"
      by (auto simp: read_text_def split: option.splits)
    from 1(2) obtain b' where
      e: "encode (codec_of s w) (platform_newlines (linesep w) (transform s content)) = Some b'"
      and w': "w' = w\<lparr>files := (files w)((target s) := Bytes b')\<rparr>"
      by (auto simp: write_text_def split: mode.splits option.splits if_splits)
    from run_written(2) [OF 1] w' have "files (final (run s w)) (target s) = Bytes b'" by simp
    with d c e show ?thesis by (simp add: rewritten_def)
  qed
  have c: "codec_of s w2 = codec_of s w1" using assms(6) by (cases s) simp_all
  from written [OF assms(1,3)] written [OF assms(2,4)] c assms(5) show ?thesis by auto
qed

theorem deterministic_witness:
  "files (final (run SimulationMocks (one_file simulate_vault_path ''abc''))) simulate_vault_path =
   files (final (run SimulationMocks
     ((one_file simulate_vault_path ''abc'')
        \<lparr>locale_encoding := Ascii, stdout := [Line ''earlier output'']\<rparr>)))
     simulate_vault_path"
proof -
  let ?w1 = "(one_file simulate_vault_path ''abc'')
        \<lparr>locale_encoding := Ascii, stdout := [Line ''earlier output'']\<rparr>"
  let ?w2 = "one_file simulate_vault_path ''abc''"
  have t: "mocks_transform ''abc'' = ''abc''"
    by (simp add: mocks_transform_def mocks_pattern_def eval_defs)
  have f: "failure SimulationMocks ?w1 = None" "failure SimulationMocks ?w2 = None"
    by (simp_all add: failure_def read_text_def write_text_def one_file_def no_files_def t
        platform_newlines_LF CR_def)
  have "files ?w1 (target SimulationMocks) = Bytes ''abc''"
    "files ?w2 (target SimulationMocks) = Bytes ''abc''"
    "linesep ?w1 = linesep ?w2"
    by (simp_all add: one_file_def no_files_def)
  from deterministic [OF this(1,2) f this(3)] show ?thesis by simp
qed

section \<open>Rules that repeat and rules that do nothing\<close>

text \<open>
  C7: fix-simulate-final.py is not idempotent.  On a file that holds one call of
  mockReturnValue the first run appends the cast, and the second run, whose pattern still
  matches the replaced text, appends it again.
\<close>

theorem final_not_idempotent:
  "final_transform ''vi.mocked(simulateVaultManagement).mockReturnValue(X);'' =
     ''vi.mocked(simulateVaultManagement).mockReturnValue(X as any);'' \<and>
   re_search final_mock_pattern
     ''vi.mocked(simulateVaultManagement).mockReturnValue(X as any);'' \<noteq> None \<and>
   final_transform (final_transform ''vi.mocked(simulateVaultManagement).mockReturnValue(X);'') =
     ''vi.mocked(simulateVaultManagement).mockReturnValue(X as any as any);''"
  by (simp add: final_transform_def eval_defs final_type_pattern_def
      patterns_to_fix_def final_mock_pattern_def final_mock_repl_def final_vault_pattern_def
      final_state_pattern_def)

text \<open>
  C8: the fifth rule of fix-simulate-final.py replaces each match by the text it matched,
  so it returns every input unchanged.
\<close>

theorem final_state_rule_identity:
  "re_sub final_state_pattern (const_repl ''(mockVault as any).state'') content = content"
  unfolding final_state_pattern_def re_sub_def by (rule sub_lits_same) simp

section \<open>Running fix-graphql-mocks.py twice\<close>

lemma graphql_match:
  "match_here graphql_pattern prev [] [] s =
     (if at_boundary prev s \<and> prefix ''graphqlClient.request.mock'' s
      then Some (rev ''graphqlClient.request.mock'', [],
                 drop (length ''graphqlClient.request.mock'') s)
      else None)"
  by (simp add: graphql_pattern_def match_lits_only last_char_def)

lemma graphql_sub_Nil:
  "sub_from graphql_pattern r prev [] = []"
  by (simp add: sub_from_Nil graphql_match)

lemma graphql_sub_prefix:
  "CHR ''v'' \<notin> set w \<Longrightarrow>
   prefix w (sub_from graphql_pattern (const_repl ''vi.mocked(graphqlClient).request.mock'') prev s) \<Longrightarrow>
   prefix w s"
proof (induction w arbitrary: prev s)
  case Nil
  show ?case by simp
next
  case (Cons x w)
  show ?case
  proof (cases s)
    case Nil
    with Cons.prems show ?thesis by (simp add: graphql_sub_Nil)
  next
    case s: (Cons c cs)
    show ?thesis
    proof (cases "match_here graphql_pattern prev [] [] (c # cs)")
      case None
      with Cons.prems s have "x = c"
        and "prefix w (sub_from graphql_pattern
               (const_repl ''vi.mocked(graphqlClient).request.mock'') (Some c) cs)"
        by (simp_all add: sub_from_Cons)
      with Cons.IH [of "Some c" cs] Cons.prems(1) s show ?thesis by simp
    next
      case (Some f)
      with Cons.prems s have "x = CHR ''v''"
        by (cases f) (simp add: sub_from_Cons const_repl_def split: if_splits)
      with Cons.prems(1) show ?thesis by simp
    qed
  qed
qed

lemma graphql_search_replacement:
  "search_from graphql_pattern prev (''vi.mocked(graphqlClient).request.mock'' @ t) =
   search_from graphql_pattern (Some CHR ''k'') t"
  by (simp add: search_from_Cons graphql_match)

lemma graphql_no_match_left:
  "search_from graphql_pattern prev
     (sub_from graphql_pattern (const_repl ''vi.mocked(graphqlClient).request.mock'') prev s) = None"
proof (induction s arbitrary: prev rule: length_induct)
  case (1 s)
  let ?r = "const_repl ''vi.mocked(graphqlClient).request.mock''"
  show ?case
  proof (cases "at_boundary prev s \<and> prefix ''graphqlClient.request.mock'' s")
    case True
    then obtain t where s: "s = ''graphqlClient.request.mock'' @ t" by (auto simp: prefix_def)
    have "sub_from graphql_pattern ?r prev s =
            ''vi.mocked(graphqlClient).request.mock'' @ sub_from graphql_pattern ?r (Some CHR ''k'') t"
      using True s by (subst sub_from.simps) (simp add: graphql_match const_repl_def last_char_def)
    moreover have "length t < length s" using s by simp
    ultimately show ?thesis using 1 by (simp only: graphql_search_replacement)
  next
    case False
    show ?thesis
    proof (cases s)
      case Nil
      then show ?thesis by (simp add: graphql_sub_Nil search_from_Nil graphql_match)
    next
      case (Cons c cs)
      let ?t = "sub_from graphql_pattern ?r (Some c) cs"
      have "match_here graphql_pattern prev [] [] (c # cs) = None"
        using False Cons by (simp only: graphql_match if_False)
      then have sub: "sub_from graphql_pattern ?r prev s = c # ?t"
        using Cons by (simp add: sub_from_Cons)
      have "\<not> (at_boundary prev (c # ?t) \<and> prefix ''graphqlClient.request.mock'' (c # ?t))"
      proof
        assume a: "at_boundary prev (c # ?t) \<and> prefix ''graphqlClient.request.mock'' (c # ?t)"
        then have p: "prefix ''graphqlClient.request.mock'' (c # ?t)" by (rule conjunct2)
        have cg: "c = CHR ''g''" using p by (auto simp only: Cons_prefix_Cons)
        have "prefix ''raphqlClient.request.mock'' ?t" using p by (auto simp only: Cons_prefix_Cons)
        then have "prefix ''raphqlClient.request.mock'' cs"
          using graphql_sub_prefix [of "''raphqlClient.request.mock''" "Some c" cs] by simp
        then have pw: "prefix ''graphqlClient.request.mock'' (c # cs)"
          unfolding cg by (simp only: Cons_prefix_Cons simp_thms)
        have ab: "at_boundary prev (c # cs)" using a by (simp add: at_boundary_def)
        from ab pw False show False unfolding Cons by blast
      qed
      then have "match_here graphql_pattern prev [] [] (c # ?t) = None"
        by (simp only: graphql_match if_False)
      then have "search_from graphql_pattern prev (c # ?t) = search_from graphql_pattern (Some c) ?t"
        by (simp only: search_from_Cons option.case)
      moreover have "search_from graphql_pattern (Some c) ?t = None"
        using 1 Cons by simp
      ultimately show ?thesis by (simp only: sub)
    qed
  qed
qed

lemma prefix_no_overlap:
  assumes p: "prefix (g # w) (a @ (g # w) @ t)" and a: "a \<noteq> []" and g: "g \<notin> set w"
  shows "prefix (g # w) a"
proof -
  from p consider "prefix (g # w) a" | us where "g # w = a @ us" "prefix us ((g # w) @ t)"
    unfolding prefix_append by blast
  then show ?thesis
  proof cases
    case 1
    then show ?thesis .
  next
    case 2
    from a obtain x a' where a': "a = x # a'" by (cases a) auto
    with 2(1) have w: "w = a' @ us" by simp
    show ?thesis
    proof (cases us)
      case Nil
      with 2(1) show ?thesis by simp
    next
      case (Cons u us')
      with 2(2) have "u = g" by simp
      with w Cons have "g \<in> set w" by simp
      with g show ?thesis by simp
    qed
  qed
qed

lemma graphql_sub_kept:
  "is_word c \<Longrightarrow>
   sub_from graphql_pattern r (Some c) (''graphqlClient.request.mock'' @ t) =
   ''graphqlClient.request.mock'' @ sub_from graphql_pattern r (Some CHR ''k'') t"
  by (simp add: sub_from_Cons graphql_match at_boundary_def is_word_def)

lemma graphql_sub_replaced:
  assumes "at_boundary prev (''graphqlClient.request.mock'' @ t)"
  shows "sub_from graphql_pattern (const_repl ''vi.mocked(graphqlClient).request.mock'') prev
           (''graphqlClient.request.mock'' @ t) =
         ''vi.mocked(graphqlClient).request.mock'' @
         sub_from graphql_pattern (const_repl ''vi.mocked(graphqlClient).request.mock'')
           (Some CHR ''k'') t"
  using assms by (subst sub_from.simps) (simp add: graphql_match const_repl_def last_char_def)

lemma graphql_sub_occurrence:
  "sub_from graphql_pattern (const_repl ''vi.mocked(graphqlClient).request.mock'') prev
     (a @ ''graphqlClient.request.mock'' @ t) =
   sub_from graphql_pattern (const_repl ''vi.mocked(graphqlClient).request.mock'') prev a @
   (if (case last_char prev (rev a) of None \<Rightarrow> False | Some c \<Rightarrow> is_word c)
    then ''graphqlClient.request.mock'' else ''vi.mocked(graphqlClient).request.mock'') @
   sub_from graphql_pattern (const_repl ''vi.mocked(graphqlClient).request.mock'')
     (Some CHR ''k'') t"
proof (induction a arbitrary: prev rule: length_induct)
  case (1 a)
  let ?L = "''graphqlClient.request.mock''"
  let ?r = "const_repl ''vi.mocked(graphqlClient).request.mock''"
  have gw: "is_word CHR ''g''" "is_word CHR ''k''" by (simp_all add: is_word_def)
  show ?case
  proof (cases a)
    case Nil
    show ?thesis
    proof (cases "case prev of None \<Rightarrow> False | Some c \<Rightarrow> is_word c")
      case True
      then obtain c where "prev = Some c" "is_word c" by (cases prev) auto
      then show ?thesis using Nil graphql_sub_kept [of c ?r t]
        by (simp only: append_Nil rev.simps last_char_def list.case option.case if_True
            graphql_sub_Nil)
    next
      case False
      then have "at_boundary prev (?L @ t)" using gw(1) by (simp add: at_boundary_def)
      from graphql_sub_replaced [OF this] False Nil show ?thesis
        by (simp only: append_Nil rev.simps last_char_def list.case if_False graphql_sub_Nil)
    qed
  next
    case (Cons c cs)
    have lc: "last_char prev' (rev cs) = last_char prev (rev a)" if "prev' = Some c" for prev'
      using that Cons by (cases cs rule: rev_cases) (simp_all add: last_char_def)
    show ?thesis
    proof (cases "at_boundary prev a \<and> prefix ?L a")
      case True
      then obtain a' where a': "a = ?L @ a'" by (auto simp: prefix_def)
      have b: "at_boundary prev (?L @ a')" "at_boundary prev (?L @ a' @ ?L @ t)"
        using True a' by (simp_all add: at_boundary_def)
      have lk: "last_char (Some CHR ''k'') (rev a') = last_char prev (rev a)"
        unfolding a' by (cases a' rule: rev_cases) (simp_all add: last_char_def)
      have "length a' < length a" unfolding a' by simp
      with 1 have ih: "sub_from graphql_pattern ?r (Some CHR ''k'') (a' @ ?L @ t) =
          sub_from graphql_pattern ?r (Some CHR ''k'') a' @
          (if (case last_char (Some CHR ''k'') (rev a') of None \<Rightarrow> False | Some c \<Rightarrow> is_word c)
           then ?L else ''vi.mocked(graphqlClient).request.mock'') @
          sub_from graphql_pattern ?r (Some CHR ''k'') t"
        by blast
      have "sub_from graphql_pattern ?r prev (a @ ?L @ t) =
          ''vi.mocked(graphqlClient).request.mock'' @
          sub_from graphql_pattern ?r (Some CHR ''k'') (a' @ ?L @ t)"
        unfolding a' using graphql_sub_replaced [OF b(2)] by (simp only: append_assoc)
      moreover have "sub_from graphql_pattern ?r prev a =
          ''vi.mocked(graphqlClient).request.mock'' @ sub_from graphql_pattern ?r (Some CHR ''k'') a'"
        unfolding a' using graphql_sub_replaced [OF b(1)] .
      ultimately show ?thesis using ih by (simp only: lk append_assoc)
    next
      case False
      have "\<not> (at_boundary prev (a @ ?L @ t) \<and> prefix ?L (a @ ?L @ t))"
      proof
        assume x: "at_boundary prev (a @ ?L @ t) \<and> prefix ?L (a @ ?L @ t)"
        then have px: "prefix ?L (a @ ?L @ t)" by (rule conjunct2)
        have an: "a \<noteq> []" using Cons by simp
        have g: "CHR ''g'' \<notin> set ''raphqlClient.request.mock''" by simp
        have "prefix ?L a" by (rule prefix_no_overlap [OF px an g])
        moreover from x have "at_boundary prev a" using Cons by (simp add: at_boundary_def)
        ultimately show False using False by blast
      qed
      note neg = this
      have e: "a @ ?L @ t = c # (cs @ ?L @ t)" using Cons by simp
      have m1: "match_here graphql_pattern prev [] [] (c # (cs @ ?L @ t)) = None"
        using neg [unfolded e] by (simp only: graphql_match if_False)
      from False have m2: "match_here graphql_pattern prev [] [] (c # cs) = None"
        unfolding Cons by (simp only: graphql_match if_False)
      have "length cs < length a" using Cons by simp
      with 1 have ih: "sub_from graphql_pattern ?r (Some c) (cs @ ?L @ t) =
          sub_from graphql_pattern ?r (Some c) cs @
          (if (case last_char (Some c) (rev cs) of None \<Rightarrow> False | Some c \<Rightarrow> is_word c)
           then ?L else ''vi.mocked(graphqlClient).request.mock'') @
          sub_from graphql_pattern ?r (Some CHR ''k'') t"
        by blast
      have "sub_from graphql_pattern ?r prev (a @ ?L @ t) =
          c # sub_from graphql_pattern ?r (Some c) (cs @ ?L @ t)"
        by (simp only: e sub_from_Cons m1 option.case)
      moreover have "sub_from graphql_pattern ?r prev a = c # sub_from graphql_pattern ?r (Some c) cs"
        unfolding Cons by (simp only: sub_from_Cons m2 option.case)
      ultimately show ?thesis using ih by (simp only: lc [OF refl] append_Cons)
    qed
  qed
qed

text \<open>
  C3, as stated, fails twice.  The rule of fix-graphql-mocks.py does not transform each
  occurrence of \<^verbatim>\<open>graphqlClient.request.mock\<close>: its pattern starts with a word boundary, so
  an occurrence that follows a letter, a digit or an underscore stays in the text.  And a
  literal rule need not be idempotent: fix-simulation-results.py turns
  \<^verbatim>\<open>as anyDataData\<close> into \<^verbatim>\<open>as anyData\<close> and that into \<^verbatim>\<open>as any\<close>, and the rule of
  fix-simulate-final.py that removes a cast removes one cast at each application.
\<close>

theorem literal_rules_kept_and_repeated:
  "graphql_transform ''xgraphqlClient.request.mock'' = ''xgraphqlClient.request.mock'' \<and>
   sublist ''graphqlClient.request.mock'' (graphql_transform ''xgraphqlClient.request.mock'') \<and>
   results_transform ''as anyDataData'' = ''as anyData'' \<and>
   results_transform (results_transform ''as anyDataData'') = ''as any'' \<and>
   re_sub final_vault_pattern (const_repl ''{ vault: mockVault }'')
     ''{ vault: mockVault } as any as any'' = ''{ vault: mockVault } as any'' \<and>
   re_sub final_vault_pattern (const_repl ''{ vault: mockVault }'')
     ''{ vault: mockVault } as any'' = ''{ vault: mockVault }''"
proof -
  have "graphql_transform ''xgraphqlClient.request.mock'' = ''xgraphqlClient.request.mock''"
    by (simp add: graphql_transform_def re_sub_def sub_from_Cons graphql_match graphql_sub_Nil
        at_boundary_def is_word_def)
  moreover have "sublist ''graphqlClient.request.mock'' (''x'' @ ''graphqlClient.request.mock'' @ [])"
    by (rule sublist_appendI)
  moreover have "results_transform ''as anyDataData'' = ''as anyData''"
    by (simp add: results_transform_def simulation_patterns_def any_data_pattern_def eval_defs)
  moreover have "results_transform ''as anyData'' = ''as any''"
    by (simp add: results_transform_def simulation_patterns_def any_data_pattern_def eval_defs)
  moreover have "re_sub final_vault_pattern (const_repl ''{ vault: mockVault }'')
     ''{ vault: mockVault } as any as any'' = ''{ vault: mockVault } as any''"
    by (simp add: final_vault_pattern_def eval_defs)
  moreover have "re_sub final_vault_pattern (const_repl ''{ vault: mockVault }'')
     ''{ vault: mockVault } as any'' = ''{ vault: mockVault }''"
    by (simp add: final_vault_pattern_def eval_defs)
  ultimately show ?thesis by simp
qed

text \<open>
  C3, amended, for fix-graphql-mocks.py alone: the rule replaces each occurrence of
  \<^verbatim>\<open>graphqlClient.request.mock\<close> that starts at a word boundary (at the start of the text or
  behind a character that is no letter, digit or underscore) by
  \<^verbatim>\<open>vi.mocked(graphqlClient).request.mock\<close> and keeps every other occurrence, wherever the
  occurrence stands in the text.  For every input the pattern matches nowhere in the output,
  so applying the rule again leaves the output unchanged.
\<close>

theorem graphql_idempotent:
  "graphql_transform (a @ ''graphqlClient.request.mock'' @ t) =
     graphql_transform a @
     (if a = [] \<or> \<not> is_word (last a)
      then ''vi.mocked(graphqlClient).request.mock'' else ''graphqlClient.request.mock'') @
     sub_from graphql_pattern (const_repl ''vi.mocked(graphqlClient).request.mock'')
       (Some CHR ''k'') t \<and>
   re_search graphql_pattern (graphql_transform content) = None \<and>
   graphql_transform (graphql_transform content) = graphql_transform content"
proof -
  have a: "re_search graphql_pattern (graphql_transform content) = None"
    by (simp add: re_search_def graphql_transform_def re_sub_def graphql_no_match_left)
  then have b: "graphql_transform (graphql_transform content) = graphql_transform content"
    unfolding re_search_def by (subst graphql_transform_def) (simp add: re_sub_def search_none_sub)
  have l: "(case last_char None (rev a) of None \<Rightarrow> False | Some c \<Rightarrow> is_word c) =
      (\<not> (a = [] \<or> \<not> is_word (last a)))"
    by (cases a rule: rev_cases) (simp_all add: last_char_def)
  have c: "graphql_transform (a @ ''graphqlClient.request.mock'' @ t) =
     graphql_transform a @
     (if a = [] \<or> \<not> is_word (last a)
      then ''vi.mocked(graphqlClient).request.mock'' else ''graphqlClient.request.mock'') @
     sub_from graphql_pattern (const_repl ''vi.mocked(graphqlClient).request.mock'')
       (Some CHR ''k'') t"
  proof (cases "a = [] \<or> \<not> is_word (last a)")
    case True
    with l have x: "(case last_char None (rev a) of None \<Rightarrow> False | Some c \<Rightarrow> is_word c) = False"
      by simp
    show ?thesis unfolding graphql_transform_def re_sub_def
      using graphql_sub_occurrence [of None a t] by (simp only: x if_False if_P [OF True])
  next
    case False
    with l have x: "(case last_char None (rev a) of None \<Rightarrow> False | Some c \<Rightarrow> is_word c) = True"
      by simp
    show ?thesis unfolding graphql_transform_def re_sub_def
      using graphql_sub_occurrence [of None a t] by (simp only: x if_True if_not_P [OF False])
  qed
  from a b c show ?thesis by blast
qed

theorem graphql_idempotent_witness:
  "graphql_transform ''await graphqlClient.request.mockResolvedValue(x)'' =
     ''await vi.mocked(graphqlClient).request.mockResolvedValue(x)'' \<and>
   graphql_transform ''xgraphqlClient.request.mockResolvedValue(x)'' =
     ''xgraphqlClient.request.mockResolvedValue(x)'' \<and>
   graphql_transform (graphql_transform ''await graphqlClient.request.mockResolvedValue(x)'') =
     graphql_transform ''await graphqlClient.request.mockResolvedValue(x)''"
proof -
  have s: "sub_from graphql_pattern (const_repl ''vi.mocked(graphqlClient).request.mock'')
      (Some CHR ''k'') ''ResolvedValue(x)'' = ''ResolvedValue(x)''"
    by (simp add: sub_from_Cons graphql_match graphql_sub_Nil)
  have a: "graphql_transform ''await '' = ''await ''" "graphql_transform ''x'' = ''x''"
    by (simp_all add: graphql_transform_def re_sub_def sub_from_Cons graphql_match graphql_sub_Nil)
  note r1 = graphql_idempotent [of "''await ''" "''ResolvedValue(x)''"
      "''await graphqlClient.request.mockResolvedValue(x)''"]
  note r2 = graphql_idempotent [of "''x''" "''ResolvedValue(x)''" "[]"]
  from r1 have c1: "graphql_transform ''await graphqlClient.request.mockResolvedValue(x)'' =
     ''await vi.mocked(graphqlClient).request.mockResolvedValue(x)''"
    by (simp add: s a is_word_def)
  from r2 have c2: "graphql_transform ''xgraphqlClient.request.mockResolvedValue(x)'' =
     ''xgraphqlClient.request.mockResolvedValue(x)''"
    by (simp add: s a is_word_def)
  from r1 have c3:
    "graphql_transform (graphql_transform ''await graphqlClient.request.mockResolvedValue(x)'') =
     graphql_transform ''await graphqlClient.request.mockResolvedValue(x)''"
    by blast
  from c1 c2 c3 show ?thesis by blast
qed

section \<open>The feesAccrued lines that one script adds and another removes\<close>

lemmas block_defs =
  fees_line_def mock_head_def mock_tail_def withdrawal_head_def withdrawal_tail_def
  appreciated_head_def appreciated_tail_def new_vault_head_def new_vault_tail_def

lemma vault_rule_mock:
  "re_sub vault_pattern (const_repl mock_vault_replacement)
     (a @ (mock_head @ fees_line ''10000000'' @ mock_tail) @ t) =
   re_sub vault_pattern (const_repl mock_vault_replacement) a @
   (mock_head @ fees_line ''10000000'' @ mock_tail) @
   re_sub vault_pattern (const_repl mock_vault_replacement) t"
  by (rule sub_rewrite_at [where j = 225 and z = "CHR '';''"])
     (simp_all add: vault_pattern_def block_defs step_defs first_char_def ends_in_def)

lemma fees_rule_mock:
  "re_sub fees_pattern (const_repl [])
     (a @ (mock_head @ fees_line ''10000000'' @ mock_tail) @ t) =
   re_sub fees_pattern (const_repl []) a @
   (mock_head @ mock_tail) @
   re_sub fees_pattern (const_repl []) t"
  by (rule sub_rewrite_at [where j = 45 and z = "CHR ''\<newline>''"])
     (simp_all add: fees_pattern_def block_defs step_defs first_char_def ends_in_def quotes_def)

lemma json_rule_mock:
  "re_sub json_pattern (const_repl
      ''const content = JSON.parse(result.content[0].text as string) as Record<string, unknown>;'')
     (a @ (mock_head @ mock_tail) @ t) =
   re_sub json_pattern (const_repl
      ''const content = JSON.parse(result.content[0].text as string) as Record<string, unknown>;'') a @
   (mock_head @ mock_tail) @
   re_sub json_pattern (const_repl
      ''const content = JSON.parse(result.content[0].text as string) as Record<string, unknown>;'') t"
  by (rule sub_rewrite_at [where j = 47 and z = "CHR '';''"])
     (simp_all add: json_pattern_def block_defs step_defs first_char_def ends_in_def)

lemma any_data_rule_mock:
  "re_sub any_data_pattern (const_repl ''as any'')
     (a @ (mock_head @ fees_line ''10000000'' @ mock_tail) @ t) =
   re_sub any_data_pattern (const_repl ''as any'') a @
   (mock_head @ fees_line ''10000000'' @ mock_tail) @
   re_sub any_data_pattern (const_repl ''as any'') t"
  by (rule sub_rewrite_at [where j = 0 and z = "CHR ''a''"])
     (simp_all add: any_data_pattern_def block_defs step_defs first_char_def ends_in_def)

lemma vault_block_mock:
  "vault_transform (pre @ (mock_head @ fees_line ''10000000'' @ mock_tail) @ post) =
   vault_transform pre @ (mock_head @ mock_tail) @ vault_transform post"
  by (simp only: vault_transform_def Let_def vault_rule_mock fees_rule_mock json_rule_mock)

lemma vault_rule_withdrawal:
  "re_sub vault_pattern (const_repl mock_vault_replacement)
     (a @ (withdrawal_head @ fees_line ''5000000'' @ withdrawal_tail) @ t) =
   re_sub vault_pattern (const_repl mock_vault_replacement) a @
   (withdrawal_head @ fees_line ''5000000'' @ withdrawal_tail) @
   re_sub vault_pattern (const_repl mock_vault_replacement) t"
  by (rule sub_rewrite_at [where j = 220 and z = "CHR '';''"])
     (simp_all add: vault_pattern_def block_defs step_defs first_char_def ends_in_def)

lemma fees_rule_withdrawal:
  "re_sub fees_pattern (const_repl [])
     (a @ (withdrawal_head @ fees_line ''5000000'' @ withdrawal_tail) @ t) =
   re_sub fees_pattern (const_repl []) a @
   (withdrawal_head @ withdrawal_tail) @
   re_sub fees_pattern (const_repl []) t"
  by (rule sub_rewrite_at [where j = 41 and z = "CHR ''\<newline>''"])
     (simp_all add: fees_pattern_def block_defs step_defs first_char_def ends_in_def quotes_def)

lemma json_rule_withdrawal:
  "re_sub json_pattern (const_repl
      ''const content = JSON.parse(result.content[0].text as string) as Record<string, unknown>;'')
     (a @ (withdrawal_head @ withdrawal_tail) @ t) =
   re_sub json_pattern (const_repl
      ''const content = JSON.parse(result.content[0].text as string) as Record<string, unknown>;'') a @
   (withdrawal_head @ withdrawal_tail) @
   re_sub json_pattern (const_repl
      ''const content = JSON.parse(result.content[0].text as string) as Record<string, unknown>;'') t"
  by (rule sub_rewrite_at [where j = 43 and z = "CHR '';''"])
     (simp_all add: json_pattern_def block_defs step_defs first_char_def ends_in_def)

lemma any_data_rule_withdrawal:
  "re_sub any_data_pattern (const_repl ''as any'')
     (a @ (withdrawal_head @ fees_line ''5000000'' @ withdrawal_tail) @ t) =
   re_sub any_data_pattern (const_repl ''as any'') a @
   (withdrawal_head @ fees_line ''5000000'' @ withdrawal_tail) @
   re_sub any_data_pattern (const_repl ''as any'') t"
  by (rule sub_rewrite_at [where j = 0 and z = "CHR ''a''"])
     (simp_all add: any_data_pattern_def block_defs step_defs first_char_def ends_in_def)

lemma vault_block_withdrawal:
  "vault_transform (pre @ (withdrawal_head @ fees_line ''5000000'' @ withdrawal_tail) @ post) =
   vault_transform pre @ (withdrawal_head @ withdrawal_tail) @ vault_transform post"
  by (simp only: vault_transform_def Let_def vault_rule_withdrawal fees_rule_withdrawal json_rule_withdrawal)

lemma vault_rule_appreciated:
  "re_sub vault_pattern (const_repl mock_vault_replacement)
     (a @ (appreciated_head @ fees_line ''10000000'' @ appreciated_tail) @ t) =
   re_sub vault_pattern (const_repl mock_vault_replacement) a @
   (appreciated_head @ fees_line ''10000000'' @ appreciated_tail) @
   re_sub vault_pattern (const_repl mock_vault_replacement) t"
  by (rule sub_rewrite_at [where j = 222 and z = "CHR '';''"])
     (simp_all add: vault_pattern_def block_defs step_defs first_char_def ends_in_def)

lemma fees_rule_appreciated:
  "re_sub fees_pattern (const_repl [])
     (a @ (appreciated_head @ fees_line ''10000000'' @ appreciated_tail) @ t) =
   re_sub fees_pattern (const_repl []) a @
   (appreciated_head @ appreciated_tail) @
   re_sub fees_pattern (const_repl []) t"
  by (rule sub_rewrite_at [where j = 42 and z = "CHR ''\<newline>''"])
     (simp_all add: fees_pattern_def block_defs step_defs first_char_def ends_in_def quotes_def)

lemma json_rule_appreciated:
  "re_sub json_pattern (const_repl
      ''const content = JSON.parse(result.content[0].text as string) as Record<string, unknown>;'')
     (a @ (appreciated_head @ appreciated_tail) @ t) =
   re_sub json_pattern (const_repl
      ''const content = JSON.parse(result.content[0].text as string) as Record<string, unknown>;'') a @
   (appreciated_head @ appreciated_tail) @
   re_sub json_pattern (const_repl
      ''const content = JSON.parse(result.content[0].text as string) as Record<string, unknown>;'') t"
  by (rule sub_rewrite_at [where j = 44 and z = "CHR '';''"])
     (simp_all add: json_pattern_def block_defs step_defs first_char_def ends_in_def)

lemma any_data_rule_appreciated:
  "re_sub any_data_pattern (const_repl ''as any'')
     (a @ (appreciated_head @ fees_line ''10000000'' @ appreciated_tail) @ t) =
   re_sub any_data_pattern (const_repl ''as any'') a @
   (appreciated_head @ fees_line ''10000000'' @ appreciated_tail) @
   re_sub any_data_pattern (const_repl ''as any'') t"
  by (rule sub_rewrite_at [where j = 0 and z = "CHR ''a''"])
     (simp_all add: any_data_pattern_def block_defs step_defs first_char_def ends_in_def)

lemma vault_block_appreciated:
  "vault_transform (pre @ (appreciated_head @ fees_line ''10000000'' @ appreciated_tail) @ post) =
   vault_transform pre @ (appreciated_head @ appreciated_tail) @ vault_transform post"
  by (simp only: vault_transform_def Let_def vault_rule_appreciated fees_rule_appreciated json_rule_appreciated)

lemma vault_rule_new_vault:
  "re_sub vault_pattern (const_repl mock_vault_replacement)
     (a @ (new_vault_head @ fees_line ''0'' @ new_vault_tail) @ t) =
   re_sub vault_pattern (const_repl mock_vault_replacement) a @
   (new_vault_head @ fees_line ''0'' @ new_vault_tail) @
   re_sub vault_pattern (const_repl mock_vault_replacement) t"
  by (rule sub_rewrite_at [where j = 212 and z = "CHR '';''"])
     (simp_all add: vault_pattern_def block_defs step_defs first_char_def ends_in_def)

lemma fees_rule_new_vault:
  "re_sub fees_pattern (const_repl [])
     (a @ (new_vault_head @ fees_line ''0'' @ new_vault_tail) @ t) =
   re_sub fees_pattern (const_repl []) a @
   (new_vault_head @ new_vault_tail) @
   re_sub fees_pattern (const_repl []) t"
  by (rule sub_rewrite_at [where j = 39 and z = "CHR ''\<newline>''"])
     (simp_all add: fees_pattern_def block_defs step_defs first_char_def ends_in_def quotes_def)

lemma json_rule_new_vault:
  "re_sub json_pattern (const_repl
      ''const content = JSON.parse(result.content[0].text as string) as Record<string, unknown>;'')
     (a @ (new_vault_head @ new_vault_tail) @ t) =
   re_sub json_pattern (const_repl
      ''const content = JSON.parse(result.content[0].text as string) as Record<string, unknown>;'') a @
   (new_vault_head @ new_vault_tail) @
   re_sub json_pattern (const_repl
      ''const content = JSON.parse(result.content[0].text as string) as Record<string, unknown>;'') t"
  by (rule sub_rewrite_at [where j = 41 and z = "CHR '';''"])
     (simp_all add: json_pattern_def block_defs step_defs first_char_def ends_in_def)

lemma any_data_rule_new_vault:
  "re_sub any_data_pattern (const_repl ''as any'')
     (a @ (new_vault_head @ fees_line ''0'' @ new_vault_tail) @ t) =
   re_sub any_data_pattern (const_repl ''as any'') a @
   (new_vault_head @ fees_line ''0'' @ new_vault_tail) @
   re_sub any_data_pattern (const_repl ''as any'') t"
  by (rule sub_rewrite_at [where j = 0 and z = "CHR ''a''"])
     (simp_all add: any_data_pattern_def block_defs step_defs first_char_def ends_in_def)

lemma vault_block_new_vault:
  "vault_transform (pre @ (new_vault_head @ fees_line ''0'' @ new_vault_tail) @ post) =
   vault_transform pre @ (new_vault_head @ new_vault_tail) @ vault_transform post"
  by (simp only: vault_transform_def Let_def vault_rule_new_vault fees_rule_new_vault json_rule_new_vault)

lemma inserted_blocks_eq: "map snd simulation_patterns = inserted_blocks"
  by (simp add: simulation_patterns_def inserted_blocks_def block_parts_def block_defs
      mock_block_def withdrawal_block_def appreciated_block_def new_vault_block_def)

lemma inserted_block_cases:
  assumes "blk \<in> set inserted_blocks"
  obtains "blk = mock_head @ fees_line ''10000000'' @ mock_tail"
  | "blk = withdrawal_head @ fees_line ''5000000'' @ withdrawal_tail"
  | "blk = appreciated_head @ fees_line ''10000000'' @ appreciated_tail"
  | "blk = new_vault_head @ fees_line ''0'' @ new_vault_tail"
  using assms unfolding inserted_blocks_def block_parts_def
  by (simp only: list.map prod.case list.set insert_iff empty_iff simp_thms) blast

lemma any_data_keeps_block:
  assumes "blk \<in> set inserted_blocks"
  shows "re_sub any_data_pattern (const_repl ''as any'') (a @ blk @ t) =
         re_sub any_data_pattern (const_repl ''as any'') a @ blk @
         re_sub any_data_pattern (const_repl ''as any'') t"
  using assms
  by (rule inserted_block_cases)
     (simp_all only: any_data_rule_mock any_data_rule_withdrawal any_data_rule_appreciated
        any_data_rule_new_vault)

lemma vault_block:
  assumes "(h, n, t) \<in> set block_parts"
  shows "vault_transform (pre @ (h @ fees_line n @ t) @ post) =
         vault_transform pre @ (h @ t) @ vault_transform post"
proof -
  from assms consider
    "h = mock_head \<and> n = ''10000000'' \<and> t = mock_tail"
    | "h = withdrawal_head \<and> n = ''5000000'' \<and> t = withdrawal_tail"
    | "h = appreciated_head \<and> n = ''10000000'' \<and> t = appreciated_tail"
    | "h = new_vault_head \<and> n = ''0'' \<and> t = new_vault_tail"
    unfolding block_parts_def
    by (simp only: list.set insert_iff empty_iff simp_thms prod.inject) blast
  then show ?thesis
    by cases
       (simp_all only: vault_block_mock vault_block_withdrawal vault_block_appreciated
          vault_block_new_vault)
qed

lemma substitute_keeps_block:
  assumes "\<exists>pre blk post. blk \<in> set inserted_blocks \<and> c = pre @ blk @ post"
    and "b \<in> set inserted_blocks"
  shows "\<exists>pre blk post. blk \<in> set inserted_blocks \<and> re_sub p (const_repl b) c = pre @ blk @ post"
proof (cases "re_search p c")
  case None
  then have "re_sub p (const_repl b) c = c" by (simp add: re_search_def re_sub_def search_none_sub)
  with assms(1) show ?thesis by simp
next
  case (Some f)
  then have "\<exists>pre post. re_sub p (const_repl b) c = pre @ b @ post"
    unfolding re_search_def re_sub_def by (intro sub_fires) simp
  with assms(2) show ?thesis by blast
qed

lemma fold_inserts_block:
  assumes "\<forall>(p, b)\<in>set rs. b \<in> set inserted_blocks"
    and "(\<exists>pre blk post. blk \<in> set inserted_blocks \<and> c = pre @ blk @ post) \<or>
         (\<exists>(p, b)\<in>set rs. re_search p c \<noteq> None)"
  shows "\<exists>pre blk post. blk \<in> set inserted_blocks \<and>
           fold (\<lambda>(pattern, replacement) content.
                   re_sub pattern (const_repl replacement) content) rs c = pre @ blk @ post"
  using assms
proof (induction rs arbitrary: c)
  case Nil
  then show ?case by simp
next
  case (Cons pb rs)
  obtain p b where pb: "pb = (p, b)" by (cases pb)
  from Cons.prems(1) pb have b: "b \<in> set inserted_blocks"
    and rest: "\<forall>(p, b)\<in>set rs. b \<in> set inserted_blocks" by auto
  have "(\<exists>pre blk post. blk \<in> set inserted_blocks \<and>
            re_sub p (const_repl b) c = pre @ blk @ post) \<or>
        (\<exists>(p', b')\<in>set rs. re_search p' (re_sub p (const_repl b) c) \<noteq> None)"
  proof (cases "\<exists>pre blk post. blk \<in> set inserted_blocks \<and> c = pre @ blk @ post")
    case True
    then show ?thesis using substitute_keeps_block [OF _ b] by blast
  next
    case False
    show ?thesis
    proof (cases "re_search p c")
      case None
      then have "re_sub p (const_repl b) c = c"
        by (simp add: re_search_def re_sub_def search_none_sub)
      with None False Cons.prems(2) pb show ?thesis by auto
    next
      case (Some f)
      then have "\<exists>pre post. re_sub p (const_repl b) c = pre @ b @ post"
        unfolding re_search_def re_sub_def by (intro sub_fires) simp
      with b show ?thesis by blast
    qed
  qed
  from Cons.IH [OF rest this] pb show ?case by simp
qed

lemma results_insert_block:
  assumes "\<exists>(p, b)\<in>set simulation_patterns. re_search p content \<noteq> None"
  shows "\<exists>pre blk post. blk \<in> set inserted_blocks \<and>
           results_transform content = pre @ blk @ post"
proof -
  have "\<forall>(p, b)\<in>set simulation_patterns. b \<in> set inserted_blocks"
  proof -
    have "snd ` set simulation_patterns = set inserted_blocks"
      using inserted_blocks_eq by (metis set_map)
    then show ?thesis by force
  qed
  from fold_inserts_block [OF this, of content] assms obtain pre blk post where
    blk: "blk \<in> set inserted_blocks" and
    "fold (\<lambda>(pattern, replacement) content. re_sub pattern (const_repl replacement) content)
       simulation_patterns content = pre @ blk @ post"
    by blast
  then have "results_transform content =
      re_sub any_data_pattern (const_repl ''as any'') pre @ blk @
      re_sub any_data_pattern (const_repl ''as any'') post"
    by (simp add: results_transform_def any_data_keeps_block)
  with blk show ?thesis by blast
qed

lemma stripped_blocks_clean:
  "\<forall>(h, n, t)\<in>set block_parts. \<not> sublist ''feesAccrued'' (h @ t)"
  by (simp add: block_parts_def block_defs sublist_Cons_right)

text \<open>
  C6: when one of the replacement rules of fix-simulation-results.py has fired, the text it
  leaves holds one of the inserted blocks with its feesAccrued line; and wherever such a
  block stands in that text, fix-simulate-vault.py turns it into the same block without the
  feesAccrued line, the text before and behind the block being rewritten on its own.  What
  is left of the block does not mention feesAccrued.
\<close>

theorem inserted_fees_lines_removed:
  assumes "\<exists>(p, b)\<in>set simulation_patterns. re_search p content \<noteq> None"
  shows "(\<exists>pre h n t post. (h, n, t) \<in> set block_parts \<and>
            results_transform content = pre @ (h @ fees_line n @ t) @ post) \<and>
         (\<forall>pre h n t post.
            (h, n, t) \<in> set block_parts \<and>
            results_transform content = pre @ (h @ fees_line n @ t) @ post \<longrightarrow>
            vault_transform (results_transform content) =
              vault_transform pre @ (h @ t) @ vault_transform post) \<and>
         (\<forall>(h, n, t)\<in>set block_parts. \<not> sublist ''feesAccrued'' (h @ t))"
proof -
  from results_insert_block [OF assms] obtain pre blk post where
    "blk \<in> set inserted_blocks" and r: "results_transform content = pre @ blk @ post"
    by blast
  then obtain h n t where "(h, n, t) \<in> set block_parts" and "blk = h @ fees_line n @ t"
    by (auto simp: inserted_blocks_def)
  with r have "\<exists>pre h n t post. (h, n, t) \<in> set block_parts \<and>
      results_transform content = pre @ (h @ fees_line n @ t) @ post"
    by blast
  moreover have "\<forall>pre h n t post.
      (h, n, t) \<in> set block_parts \<and>
      results_transform content = pre @ (h @ fees_line n @ t) @ post \<longrightarrow>
      vault_transform (results_transform content) =
        vault_transform pre @ (h @ t) @ vault_transform post"
    using vault_block by metis
  ultimately show ?thesis using stripped_blocks_clean by blast
qed

theorem inserted_fees_lines_removed_witness:
  "results_transform ''const newVaultResult: SimulationResult = {x};'' =
     new_vault_head @ fees_line ''0'' @ new_vault_tail \<and>
   vault_transform (results_transform ''const newVaultResult: SimulationResult = {x};'') =
     new_vault_head @ new_vault_tail"
proof -
  let ?c = "''const newVaultResult: SimulationResult = {x};''"
  have fired: "\<exists>(p, b)\<in>set simulation_patterns. re_search p ?c \<noteq> None"
    by (simp add: simulation_patterns_def eval_defs)
  have r: "results_transform ?c = [] @ (new_vault_head @ fees_line ''0'' @ new_vault_tail) @ []"
    by (simp add: results_transform_def simulation_patterns_def any_data_pattern_def eval_defs
        block_defs new_vault_block_def)
  have m: "(new_vault_head, ''0'', new_vault_tail) \<in> set block_parts"
    by (simp add: block_parts_def)
  have v: "vault_transform [] = []"
    by (simp add: vault_transform_def vault_pattern_def fees_pattern_def json_pattern_def
        eval_defs)
  from inserted_fees_lines_removed [OF fired]
  have "\<forall>pre h n t post.
      (h, n, t) \<in> set block_parts \<and>
      results_transform ?c = pre @ (h @ fees_line n @ t) @ post \<longrightarrow>
      vault_transform (results_transform ?c) =
        vault_transform pre @ (h @ t) @ vault_transform post"
    by blast
  with m r have "vault_transform (results_transform ?c) =
      vault_transform [] @ (new_vault_head @ new_vault_tail) @ vault_transform []"
    by blast
  with r v show ?thesis by simp
qed

section \<open>The import line of fix-simulate-complete.py\<close>

lemma result_rule_keeps_import:
  "re_sub simulation_result_pattern replace_simulation_result
     (a @ imports_to_add @ t) =
   re_sub simulation_result_pattern replace_simulation_result a @
   imports_to_add @
   re_sub simulation_result_pattern replace_simulation_result t"
  by (rule sub_rewrite_at [where j = 38 and z = "CHR '';''"])
     (simp_all add: simulation_result_pattern_def imports_to_add_def step_defs first_char_def ends_in_def)

lemma state_rule_keeps_import:
  "re_sub complete_state_pattern (const_repl ''(mockVault as any).state'')
     (a @ imports_to_add @ t) =
   re_sub complete_state_pattern (const_repl ''(mockVault as any).state'') a @
   imports_to_add @
   re_sub complete_state_pattern (const_repl ''(mockVault as any).state'') t"
  by (rule sub_rewrite_at [where j = 0 and z = "CHR ''e''"])
     (simp_all add: complete_state_pattern_def imports_to_add_def step_defs first_char_def ends_in_def)

lemma cast_rule_keeps_import:
  "re_sub complete_cast_pattern (const_repl ''as any'')
     (a @ imports_to_add @ t) =
   re_sub complete_cast_pattern (const_repl ''as any'') a @
   imports_to_add @
   re_sub complete_cast_pattern (const_repl ''as any'') t"
  by (rule sub_rewrite_at [where j = 0 and z = "CHR ''t''"])
     (simp_all add: complete_cast_pattern_def imports_to_add_def step_defs first_char_def ends_in_def)

lemma mock_rule_keeps_import:
  "re_sub complete_mock_pattern (const_repl
      ''vi.mocked(graphqlClient).request.mockResolvedValueOnce({ vault: mockVault } as any);'')
     (a @ imports_to_add @ t) =
   re_sub complete_mock_pattern (const_repl
      ''vi.mocked(graphqlClient).request.mockResolvedValueOnce({ vault: mockVault } as any);'') a @
   imports_to_add @
   re_sub complete_mock_pattern (const_repl
      ''vi.mocked(graphqlClient).request.mockResolvedValueOnce({ vault: mockVault } as any);'') t"
  by (rule sub_rewrite_at [where j = 0 and z = "CHR '';''"])
     (simp_all add: complete_mock_pattern_def imports_to_add_def step_defs first_char_def ends_in_def)

lemma request_rule_keeps_import:
  "re_sub complete_request_pattern (const_repl ''.request.mockResolvedValueOnce({ vault: mockVault } as any)'')
     (a @ imports_to_add @ t) =
   re_sub complete_request_pattern (const_repl ''.request.mockResolvedValueOnce({ vault: mockVault } as any)'') a @
   imports_to_add @
   re_sub complete_request_pattern (const_repl ''.request.mockResolvedValueOnce({ vault: mockVault } as any)'') t"
  by (rule sub_rewrite_at [where j = 0 and z = "CHR '')''"])
     (simp_all add: complete_request_pattern_def imports_to_add_def step_defs first_char_def ends_in_def)

lemma substitutions_keep_import:
  "complete_substitutions (a @ imports_to_add @ t) =
   complete_substitutions a @ imports_to_add @ complete_substitutions t"
  by (simp add: complete_substitutions_def result_rule_keeps_import state_rule_keeps_import
      cast_rule_keeps_import mock_rule_keeps_import request_rule_keeps_import)

lemma complete_transform_split:
  "complete_transform content = complete_substitutions (add_imports content)"
  by (simp add: complete_transform_def complete_substitutions_def)

lemma import_matches_itself:
  "match_here import_pattern None [] [] (imports_to_add @ t) \<noteq> None"
  by (simp add: import_pattern_def imports_to_add_def lits_def quotes_def)

lemma import_found_behind:
  "re_finditer import_pattern (a @ imports_to_add @ t) \<noteq> []"
proof -
  have "WordB \<notin> set import_pattern" by (simp add: import_pattern_def lits_def)
  then have "search_from import_pattern None (a @ imports_to_add @ t) \<noteq> None"
    using import_matches_itself by (rule search_append)
  then show ?thesis by (simp add: re_finditer_def finditer_search)
qed

text \<open>
  C9: when the import pattern matches somewhere in the input, fix-simulate-complete.py puts
  its import line right behind the end of the last match, whatever else the input holds: the
  text before that position and the text behind it go through the other substitutions on
  their own, and the new line stands between them untouched.  The output holds a match of
  the import pattern again, so every further run inserts the line once more.
\<close>

theorem import_inserted_each_run:
  assumes "re_finditer import_pattern content \<noteq> []"
  shows "(let e = snd (last (re_finditer import_pattern content)) in
          complete_transform content =
            complete_substitutions (take e content) @ imports_to_add @
            complete_substitutions (drop e content)) \<and>
         (\<forall>n. re_finditer import_pattern ((complete_transform ^^ n) content) \<noteq> [])"
proof -
  have step: "\<And>c. re_finditer import_pattern c \<noteq> [] \<Longrightarrow>
      complete_transform c =
        complete_substitutions (take (snd (last (re_finditer import_pattern c))) c) @
        imports_to_add @
        complete_substitutions (drop (snd (last (re_finditer import_pattern c))) c)"
  proof -
    fix c
    assume "re_finditer import_pattern c \<noteq> []"
    then have "add_imports c =
        take (snd (last (re_finditer import_pattern c))) c @ imports_to_add @
        drop (snd (last (re_finditer import_pattern c))) c"
      by (cases "re_finditer import_pattern c") (simp_all add: add_imports_def Let_def)
    then show "complete_transform c =
        complete_substitutions (take (snd (last (re_finditer import_pattern c))) c) @
        imports_to_add @
        complete_substitutions (drop (snd (last (re_finditer import_pattern c))) c)"
      by (simp add: complete_transform_split substitutions_keep_import)
  qed
  have again: "\<And>c. re_finditer import_pattern c \<noteq> [] \<Longrightarrow>
      re_finditer import_pattern (complete_transform c) \<noteq> []"
    using step import_found_behind by simp
  have "re_finditer import_pattern ((complete_transform ^^ n) content) \<noteq> []" for n
    by (induction n) (simp_all add: assms again)
  with step [OF assms] show ?thesis by simp
qed

theorem import_inserted_each_run_witness:
  "complete_transform ''import a from 'b';\<newline>x'' =
     ''import a from 'b';\<newline>import type { Vault, SimulationResult } from '../../types/generated.js';\<newline>x'' \<and>
   re_finditer import_pattern (complete_transform ''import a from 'b';\<newline>x'') \<noteq> []"
proof -
  have f: "re_finditer import_pattern ''import a from 'b';\<newline>x'' = [(0, 19)]"
    by (simp add: eval_defs import_pattern_def)
  have s: "complete_substitutions ''import a from 'b';\<newline>'' = ''import a from 'b';\<newline>''"
    "complete_substitutions ''x'' = ''x''"
    by (simp_all add: complete_substitutions_def eval_defs simulation_result_pattern_def
        complete_state_pattern_def complete_cast_pattern_def complete_mock_pattern_def
        complete_request_pattern_def)
  from f have "re_finditer import_pattern ''import a from 'b';\<newline>x'' \<noteq> []" by simp
  note t = import_inserted_each_run [OF this]
  from t have a: "complete_transform ''import a from 'b';\<newline>x'' =
     ''import a from 'b';\<newline>import type { Vault, SimulationResult } from '../../types/generated.js';\<newline>x''"
    using f s by (simp add: imports_to_add_def)
  from t have "\<forall>n. re_finditer import_pattern
      ((complete_transform ^^ n) ''import a from 'b';\<newline>x'') \<noteq> []"
    by (rule conjunct2)
  then have "re_finditer import_pattern
      ((complete_transform ^^ Suc 0) ''import a from 'b';\<newline>x'') \<noteq> []"
    by (rule spec)
  with a show ?thesis by simp
qed

end
